theory Spec2Isabelle
  imports Complex_Main "HOL-Library.Log_Nat"
begin

section \<open>Data model\<close>

text \<open>
  The build execution engine of \<^verbatim>\<open>backend/utils/build_runner.py\<close>: the two functions
  \<^verbatim>\<open>run_command_and_stream\<close> and \<^verbatim>\<open>run_build_thread\<close>. Everything the functions touch
  outside their own variables is kept in a record \<open>world\<close> that is passed through: the
  \<^verbatim>\<open>Build\<close> and \<^verbatim>\<open>BuildLog\<close> tables, the sequence of \<^verbatim>\<open>socketio.emit\<close> calls and the
  lines written with \<^verbatim>\<open>print\<close>.
\<close>

text \<open>Values produced by \<^verbatim>\<open>json.loads\<close>: the pipeline configuration and its parts.\<close>

datatype json =
    JNull
  | JBool bool
  | JNum int
  | JStr string
  | JArr "json list"
  | JObj "(string \<times> json) list"

text \<open>A Python exception: its class name and its message (\<^verbatim>\<open>str(e)\<close>).\<close>

datatype exn = Exn string string

fun str_of :: "exn \<Rightarrow> string" where
  "str_of (Exn cls msg) = msg"

text \<open>
  A row of the \<^verbatim>\<open>Build\<close> table, with the columns \<^verbatim>\<open>app.py\<close> and the runner use. The
  status is the string the code stores; timestamps are abstract clock readings.
\<close>

record build =
  pipeline_id :: nat
  status :: string
  started_at :: "nat option"
  finished_at :: "nat option"

text \<open>A row of the \<^verbatim>\<open>BuildLog\<close> table: \<^verbatim>\<open>BuildLog(build_id, step_index, text)\<close>.\<close>

record build_log =
  log_build_id :: nat
  log_step_index :: nat
  log_text :: string

text \<open>
  One constructor for each event name passed to \<^verbatim>\<open>socketio.emit\<close> (\<open>E_build_log\<close> is
  the event \<^verbatim>\<open>"build_log"\<close>); the arguments are
  the payload fields in the order of the source (\<^verbatim>\<open>build_id\<close> first). The optional
  argument of \<open>E_build_finished\<close> is the \<^verbatim>\<open>error\<close> field, present only in the handler's
  emit.
\<close>

datatype event =
    E_build_status_update nat string
  | E_build_step_start nat nat json
  | E_build_log nat nat string
  | E_build_progress nat int
  | E_build_finished nat string "string option"

text \<open>One constructor for each \<^verbatim>\<open>print\<close> statement (the operational log).\<close>

datatype console_msg =
    StartFailed nat nat exn
  | LineOut nat nat string
  | ReturnCode nat nat int
  | NotFound nat

record world =
  builds :: "nat \<rightharpoonup> build"
  build_logs :: "build_log list"
  emitted :: "event list"
  console :: "console_msg list"

text \<open>
  The storage calls of the source, named by the source line they stand on. The
  store is an external collaborator: any call may raise, and between two of the
  runner's accesses another task may have deleted the build's row.
\<close>

datatype db_call =
    Get_84 | Commit_90
  | Commit_50 | Commit_71
  | Get_127 | Commit_130
  | Get_140 | Commit_143
  | Get_153 | Commit_157

text \<open>
  What the runner cannot decide by itself is an oracle of the environment:
  \<^item> \<open>json_loads\<close> is \<^verbatim>\<open>json.loads\<close>: the parsed value, or the exception it raises;
  \<^item> \<open>popen\<close> is lines 16 to 27 for the command of a step (the platform wrapper and
    \<^verbatim>\<open>subprocess.Popen\<close>): the exception raised on spawning, or the successive results
    of \<^verbatim>\<open>proc.stdout.readline()\<close> together with the result of \<^verbatim>\<open>proc.wait()\<close>;
  \<^item> \<open>db_raises\<close> tells whether a storage call raises in the current world;
  \<^item> \<open>vanished\<close> tells whether the build's row has been deleted by another task when
    a lookup is reached;
  \<^item> \<open>now\<close> is \<^verbatim>\<open>datetime.now(timezone.utc)\<close> at the write that follows a lookup.
\<close>

record env =
  json_loads :: "string \<Rightarrow> exn + json"
  popen :: "nat \<Rightarrow> json \<Rightarrow> exn + (string list \<times> int)"
  db_raises :: "db_call \<Rightarrow> world \<Rightarrow> exn option"
  vanished :: "db_call \<Rightarrow> world \<Rightarrow> bool"
  now :: "db_call \<Rightarrow> nat"

section \<open>Python primitives used by the runner\<close>

text \<open>Truth value of a JSON value, as \<^verbatim>\<open>not cmd\<close> tests it.\<close>

fun truthy :: "json \<Rightarrow> bool" where
  "truthy JNull = False"
| "truthy (JBool b) = b"
| "truthy (JNum n) = (n \<noteq> 0)"
| "truthy (JStr s) = (s \<noteq> [])"
| "truthy (JArr xs) = (xs \<noteq> [])"
| "truthy (JObj kvs) = (kvs \<noteq> [])"

text \<open>\<^verbatim>\<open>line.rstrip("\n")\<close>: every trailing line feed is removed.\<close>

definition rstrip_nl :: "string \<Rightarrow> string" where
  "rstrip_nl s = rev (dropWhile (\<lambda>c. c = CHR 0x0A) (rev s))"

text \<open>
  \<^verbatim>\<open>iter(proc.stdout.readline, "")\<close>: the results of \<^verbatim>\<open>readline\<close> up to the first empty
  string, the end of the stream. The test \<^verbatim>\<open>if not line: break\<close> inside the loop can
  therefore never fire.
\<close>

definition readlines :: "string list \<Rightarrow> string list" where
  "readlines raw = takeWhile (\<lambda>l. l \<noteq> []) raw"

definition emit :: "event \<Rightarrow> world \<Rightarrow> world" where
  "emit ev w = w\<lparr>emitted := emitted w @ [ev]\<rparr>"

definition print :: "console_msg \<Rightarrow> world \<Rightarrow> world" where
  "print m w = w\<lparr>console := console w @ [m]\<rparr>"

section \<open>run\_command\_and\_stream\<close>

text \<open>
  Lines 46 to 50 and 67 to 71: every buffered line becomes a \<^verbatim>\<open>BuildLog\<close> row and the
  session is committed. When the commit raises, no row of the batch is stored and the
  exception leaves the function.
\<close>

definition BuildLog :: "nat \<Rightarrow> nat \<Rightarrow> string \<Rightarrow> build_log" where
  "BuildLog build_id step_index text =
     \<lparr>log_build_id = build_id, log_step_index = step_index, log_text = text\<rparr>"

definition flush :: "env \<Rightarrow> db_call \<Rightarrow> nat \<Rightarrow> nat \<Rightarrow> string list \<Rightarrow> world \<Rightarrow> exn + world" where
  "flush e call build_id step_index buffer w =
     (case db_raises e call w of
        Some x \<Rightarrow> Inl x
      | None \<Rightarrow> Inr (w\<lparr>build_logs := build_logs w @
                  map (\<lambda>log_line. BuildLog build_id step_index log_line) buffer\<rparr>))"

text \<open>
  The loop of lines 36 to 63 over the lines read, with its two variables \<open>buffer\<close>
  and \<open>emit_cooldown\<close>. It returns the two variables as they are after the last line,
  or the exception of a commit.
\<close>

fun stream_lines ::
  "env \<Rightarrow> nat \<Rightarrow> nat \<Rightarrow> string list \<Rightarrow> string list \<Rightarrow> nat \<Rightarrow> world
     \<Rightarrow> (exn + string list \<times> nat) \<times> world" where
  "stream_lines e build_id step_index [] buffer emit_cooldown w =
     (Inr (buffer, emit_cooldown), w)"
| "stream_lines e build_id step_index (line # rest) buffer emit_cooldown w =
     (let text_line = rstrip_nl line;
          w1 = print (LineOut build_id step_index text_line) w;
          buffer1 = buffer @ [text_line]
      in case (if length buffer1 \<ge> 15
               then (case flush e Commit_50 build_id step_index buffer1 w1 of
                       Inl x \<Rightarrow> Inl x
                     | Inr w2 \<Rightarrow> Inr ([], w2))
               else Inr (buffer1, w1)) of
           Inl x \<Rightarrow> (Inl x, w1)
         | Inr (buffer2, w2) \<Rightarrow>
             (let cooldown1 = emit_cooldown + 1
              in if cooldown1 \<ge> 5
                 then stream_lines e build_id step_index rest buffer2 0
                        (emit (E_build_log build_id step_index text_line) w2)
                 else stream_lines e build_id step_index rest buffer2 cooldown1 w2))"

definition run_command_and_stream ::
  "env \<Rightarrow> nat \<Rightarrow> nat \<Rightarrow> json \<Rightarrow> world \<Rightarrow> (exn + int) \<times> world" where
  "run_command_and_stream e build_id step_index cmd w =
     (if \<not> truthy cmd then (Inr 0, w)
      else case popen e step_index cmd of
          Inl x \<Rightarrow> (Inr 1, print (StartFailed build_id step_index x) w)
        | Inr (raw, rc) \<Rightarrow>
           (case stream_lines e build_id step_index (readlines raw) [] 0 w of
              (Inl x, w1) \<Rightarrow> (Inl x, w1)
            | (Inr (buffer, emit_cooldown), w1) \<Rightarrow>
               (case (if buffer \<noteq> []
                      then flush e Commit_71 build_id step_index buffer w1
                      else Inr w1) of
                  Inl x \<Rightarrow> (Inl x, w1)
                | Inr w2 \<Rightarrow> (Inr rc, print (ReturnCode build_id step_index rc) w2))))"

section \<open>The progress percentage\<close>

text \<open>
  Line 119 computes \<^verbatim>\<open>int(((index + 1) / total_steps) * 100)\<close>. The division of two
  Python integers and the product with \<^verbatim>\<open>100\<close> are binary64 operations: each returns the
  exact result rounded to the nearest number with a 53 bit significand, ties to the
  even significand. \<^verbatim>\<open>int\<close> then truncates towards zero. The numbers are modelled as
  rationals and the rounding is written out; the exponent range is not bounded, which
  is the behaviour of binary64 for every quotient of two list lengths that can exist.
\<close>

definition round_half_even :: "rat \<Rightarrow> int" where
  "round_half_even q =
     (let f = \<lfloor>q\<rfloor>; d = q - of_int f
      in if d < 1 / 2 then f else if 1 / 2 < d then f + 1
         else if even f then f else f + 1)"

definition pow2 :: "int \<Rightarrow> rat" where
  "pow2 k = (if 0 \<le> k then 2 ^ nat k else 1 / 2 ^ nat (- k))"

text \<open>For \<open>0 < q\<close>, the exponent \<open>k\<close> with \<open>2\<^sup>k \<le> q < 2\<^sup>k\<^sup>+\<^sup>1\<close>.\<close>

definition ilog2 :: "rat \<Rightarrow> int" where
  "ilog2 q =
     (let (a, b) = quotient_of q;
          d = bitlen a - bitlen b
      in if pow2 d \<le> q then d else d - 1)"

definition float64 :: "rat \<Rightarrow> rat" where
  "float64 q =
     (if q = 0 then 0
      else let a = \<bar>q\<bar>; ulp = pow2 (ilog2 a - 52);
               m = of_int (round_half_even (a / ulp)) * ulp
           in if q < 0 then - m else m)"

definition py_int :: "rat \<Rightarrow> int" where
  "py_int q = (if 0 \<le> q then \<lfloor>q\<rfloor> else \<lceil>q\<rceil>)"

definition progress_pct :: "nat \<Rightarrow> nat \<Rightarrow> int" where
  "progress_pct index total_steps =
     py_int (float64 (float64 (of_nat (index + 1) / of_nat total_steps) * 100))"

section \<open>run\_build\_thread\<close>

fun type_name :: "json \<Rightarrow> string" where
  "type_name JNull = ''NoneType''"
| "type_name (JBool b) = ''bool''"
| "type_name (JNum n) = ''int''"
| "type_name (JStr s) = ''str''"
| "type_name (JArr xs) = ''list''"
| "type_name (JObj kvs) = ''dict''"

definition no_attribute :: "string \<Rightarrow> string \<Rightarrow> exn" where
  "no_attribute ty attr =
     Exn ''AttributeError''
       ([CHR 0x27] @ ty @ [CHR 0x27] @ '' object has no attribute '' @
        [CHR 0x27] @ attr @ [CHR 0x27])"

text \<open>\<^verbatim>\<open>obj.get(key, default)\<close>: only a dict has the method.\<close>

definition dict_get :: "json \<Rightarrow> string \<Rightarrow> json \<Rightarrow> exn + json" where
  "dict_get obj key dflt =
     (case obj of
        JObj kvs \<Rightarrow> Inr (case map_of kvs key of None \<Rightarrow> dflt | Some v \<Rightarrow> v)
      | _ \<Rightarrow> Inl (no_attribute (type_name obj) ''get''))"

text \<open>\<^verbatim>\<open>len(steps)\<close>: defined on lists, strings and dicts.\<close>

definition py_len :: "json \<Rightarrow> exn + nat" where
  "py_len v =
     (case v of
        JArr xs \<Rightarrow> Inr (length xs)
      | JStr s \<Rightarrow> Inr (length s)
      | JObj kvs \<Rightarrow> Inr (length kvs)
      | _ \<Rightarrow> Inl (Exn ''TypeError''
                 (''object of type '' @ [CHR 0x27] @ type_name v @ [CHR 0x27] @
                  '' has no len()'')))"

text \<open>
  The elements \<^verbatim>\<open>enumerate(steps)\<close> runs over: the items of a list, the characters
  of a string, the keys of a dict. Values without a length never reach the loop.
\<close>

definition py_iter :: "json \<Rightarrow> json list" where
  "py_iter v =
     (case v of
        JArr xs \<Rightarrow> xs
      | JStr s \<Rightarrow> map (\<lambda>c. JStr [c]) s
      | JObj kvs \<Rightarrow> map (\<lambda>kv. JStr (fst kv)) kvs
      | _ \<Rightarrow> [])"

text \<open>
  \<^verbatim>\<open>db.session.get(Build, build_id)\<close> after the entry of an application context: the
  row as it is in the table by then, \<open>None\<close> when it is gone.
\<close>

definition db_session_get ::
  "env \<Rightarrow> db_call \<Rightarrow> nat \<Rightarrow> world \<Rightarrow> (exn + build option) \<times> world" where
  "db_session_get e call build_id w =
     (let w1 = (if vanished e call w
                then w\<lparr>builds := (builds w)(build_id := None)\<rparr> else w)
      in case db_raises e call w1 of
           Some x \<Rightarrow> (Inl x, w1)
         | None \<Rightarrow> (Inr (builds w1 build_id), w1))"

text \<open>\<^verbatim>\<open>db.session.commit()\<close> of the changed row: stored, unless the commit raises.\<close>

definition db_commit_build :: "env \<Rightarrow> db_call \<Rightarrow> nat \<Rightarrow> build \<Rightarrow> world \<Rightarrow> exn + world" where
  "db_commit_build e call build_id b w =
     (case db_raises e call w of
        Some x \<Rightarrow> Inl x
      | None \<Rightarrow> Inr (w\<lparr>builds := (builds w)(build_id \<mapsto> b)\<rparr>))"

text \<open>
  Lines 125 to 130 and 138 to 143: the row is looked up again and written with the
  final status and \<^verbatim>\<open>finished_at\<close>. The lookup is not tested: on a missing row the
  assignment \<^verbatim>\<open>build.status = ...\<close> raises \<^verbatim>\<open>AttributeError\<close>.
\<close>

definition finish_build ::
  "env \<Rightarrow> db_call \<Rightarrow> db_call \<Rightarrow> nat \<Rightarrow> string \<Rightarrow> world \<Rightarrow> (exn + unit) \<times> world" where
  "finish_build e get commit build_id st w =
     (case db_session_get e get build_id w of
        (Inl x, w1) \<Rightarrow> (Inl x, w1)
      | (Inr None, w1) \<Rightarrow> (Inl (no_attribute ''NoneType'' ''status''), w1)
      | (Inr (Some b), w1) \<Rightarrow>
          (case db_commit_build e commit build_id
                  (b\<lparr>status := st, finished_at := Some (now e commit)\<rparr>) w1 of
             Inl x \<Rightarrow> (Inl x, w1)
           | Inr w2 \<Rightarrow> (Inr (), w2)))"

text \<open>
  How the loop of lines 104 to 136 is left without an exception: by the \<^verbatim>\<open>return\<close>
  of line 136, or by running out of steps.
\<close>

datatype loop_exit = Returned | Exhausted

fun run_steps ::
  "env \<Rightarrow> nat \<Rightarrow> nat \<Rightarrow> nat \<Rightarrow> json list \<Rightarrow> world \<Rightarrow> (exn + loop_exit) \<times> world" where
  "run_steps e build_id total_steps index [] w = (Inr Exhausted, w)"
| "run_steps e build_id total_steps index (step # rest) w =
     (case dict_get step ''cmd'' JNull of
        Inl x \<Rightarrow> (Inl x, w)
      | Inr cmd \<Rightarrow>
         (let w1 = emit (E_build_step_start build_id index cmd) w
          in case run_command_and_stream e build_id index cmd w1 of
               (Inl x, w2) \<Rightarrow> (Inl x, w2)
             | (Inr rc, w2) \<Rightarrow>
                (let w3 = emit (E_build_progress build_id (progress_pct index total_steps)) w2
                 in if rc \<noteq> 0
                    then (case finish_build e Get_127 Commit_130 build_id ''failed'' w3 of
                            (Inl x, w4) \<Rightarrow> (Inl x, w4)
                          | (Inr u, w4) \<Rightarrow>
                              (Inr Returned, emit (E_build_finished build_id ''failed'' None) w4))
                    else run_steps e build_id total_steps (index + 1) rest w3)))"

text \<open>\<^verbatim>\<open>pipeline_config_json or "{}"\<close>: \<^verbatim>\<open>None\<close> and the empty string give \<^verbatim>\<open>"{}"\<close>.\<close>

definition config_text :: "string option \<Rightarrow> string" where
  "config_text pipeline_config_json =
     (case pipeline_config_json of
        None \<Rightarrow> ''{}''
      | Some s \<Rightarrow> if s = [] then ''{}'' else s)"

text \<open>The body of the \<^verbatim>\<open>try\<close> statement, lines 99 to 148.\<close>

definition try_body :: "env \<Rightarrow> nat \<Rightarrow> string option \<Rightarrow> world \<Rightarrow> (exn + unit) \<times> world" where
  "try_body e build_id pipeline_config_json w =
     (case json_loads e (config_text pipeline_config_json) of
        Inl x \<Rightarrow> (Inl x, w)
      | Inr config \<Rightarrow>
         (case dict_get config ''steps'' (JArr []) of
            Inl x \<Rightarrow> (Inl x, w)
          | Inr steps \<Rightarrow>
             (case py_len steps of
                Inl x \<Rightarrow> (Inl x, w)
              | Inr n \<Rightarrow>
                 (let total_steps = (if n = 0 then 1 else n)
                  in case run_steps e build_id total_steps 0 (py_iter steps) w of
                       (Inl x, w1) \<Rightarrow> (Inl x, w1)
                     | (Inr Returned, w1) \<Rightarrow> (Inr (), w1)
                     | (Inr Exhausted, w1) \<Rightarrow>
                        (case finish_build e Get_140 Commit_143 build_id ''success'' w1 of
                           (Inl x, w2) \<Rightarrow> (Inl x, w2)
                         | (Inr u, w2) \<Rightarrow>
                             (Inr (), emit (E_build_finished build_id ''success'' None) w2))))))"

text \<open>
  The \<^verbatim>\<open>except Exception as e\<close> clause, lines 150 to 164. Its own storage calls are
  not guarded: an exception they raise leaves the function, and the emit is not
  reached. The first component of the result is the exception that escapes, if any.
\<close>

definition handler :: "env \<Rightarrow> nat \<Rightarrow> exn \<Rightarrow> world \<Rightarrow> exn option \<times> world" where
  "handler e build_id x w =
     (case db_session_get e Get_153 build_id w of
        (Inl y, w1) \<Rightarrow> (Some y, w1)
      | (Inr found, w1) \<Rightarrow>
         (case (case found of
                  None \<Rightarrow> Inr w1
                | Some b \<Rightarrow>
                    db_commit_build e Commit_157 build_id
                      (b\<lparr>status := ''failed'', finished_at := Some (now e Commit_157)\<rparr>) w1) of
            Inl y \<Rightarrow> (Some y, w1)
          | Inr w2 \<Rightarrow>
              (None, emit (E_build_finished build_id ''failed'' (Some (str_of x))) w2)))"

text \<open>
  The whole function. Lines 82 to 90 stand before the \<^verbatim>\<open>try\<close>: an exception of their
  storage calls escapes. The result is the exception that leaves the function (\<open>None\<close>
  when it returns) and the world it leaves behind.
\<close>

definition run_build_thread ::
  "env \<Rightarrow> nat \<Rightarrow> string option \<Rightarrow> world \<Rightarrow> exn option \<times> world" where
  "run_build_thread e build_id pipeline_config_json w =
     (case db_session_get e Get_84 build_id w of
        (Inl x, w1) \<Rightarrow> (Some x, w1)
      | (Inr None, w1) \<Rightarrow> (None, print (NotFound build_id) w1)
      | (Inr (Some b), w1) \<Rightarrow>
         (case db_commit_build e Commit_90 build_id (b\<lparr>status := ''running''\<rparr>) w1 of
            Inl x \<Rightarrow> (Some x, w1)
          | Inr w2 \<Rightarrow>
             (let w3 = emit (E_build_status_update build_id ''running'') w2
              in case try_body e build_id pipeline_config_json w3 of
                   (Inr u, w4) \<Rightarrow> (None, w4)
                 | (Inl x, w4) \<Rightarrow> handler e build_id x w4)))"

section \<open>Vocabulary of the properties\<close>

text \<open>
  With the cooldown counter at \<open>cd\<close>, the lines of \<open>ts\<close> that are sent to the live
  view: those at the positions \<open>4 - cd\<close>, \<open>9 - cd\<close>, \<open>14 - cd\<close> and so on.
\<close>

definition throttled :: "nat \<Rightarrow> 'a list \<Rightarrow> 'a list" where
  "throttled cd ts = map (\<lambda>j. ts ! (5 * j + 4 - cd)) [0..<(cd + length ts) div 5]"

text \<open>
  What a step does when no commit raises, read off \<^verbatim>\<open>run_command_and_stream\<close>: its
  exit code (0 for an empty command, 1 for a command that cannot be spawned) and the
  lines its process prints.
\<close>

definition exit_code :: "env \<Rightarrow> nat \<Rightarrow> json \<Rightarrow> int" where
  "exit_code e index cmd =
     (if \<not> truthy cmd then 0
      else case popen e index cmd of Inl x \<Rightarrow> 1 | Inr (raw, rc) \<Rightarrow> rc)"

definition step_lines :: "env \<Rightarrow> nat \<Rightarrow> json \<Rightarrow> string list" where
  "step_lines e index cmd =
     (if \<not> truthy cmd then []
      else case popen e index cmd of
             Inl x \<Rightarrow> []
           | Inr (raw, rc) \<Rightarrow> map rstrip_nl (readlines raw))"

text \<open>The steps of a pipeline are dicts; \<open>step_cmd\<close> is \<^verbatim>\<open>step.get("cmd")\<close> of a dict.\<close>

fun is_dict :: "json \<Rightarrow> bool" where
  "is_dict (JObj kvs) = True"
| "is_dict v = False"

definition step_cmd :: "json \<Rightarrow> json" where
  "step_cmd step = (case dict_get step ''cmd'' JNull of Inl x \<Rightarrow> JNull | Inr cmd \<Rightarrow> cmd)"

text \<open>The events a step publishes when no commit raises, in the order of the source.\<close>

definition step_events :: "env \<Rightarrow> nat \<Rightarrow> nat \<Rightarrow> nat \<Rightarrow> json \<Rightarrow> event list" where
  "step_events e build_id total_steps index cmd =
     E_build_step_start build_id index cmd #
     map (E_build_log build_id index) (throttled 0 (step_lines e index cmd)) @
     [E_build_progress build_id (progress_pct index total_steps)]"

fun is_step_start :: "event \<Rightarrow> bool" where
  "is_step_start (E_build_step_start b i c) = True"
| "is_step_start ev = False"

fun is_progress :: "event \<Rightarrow> bool" where
  "is_progress (E_build_progress b p) = True"
| "is_progress ev = False"

fun is_finished :: "event \<Rightarrow> bool" where
  "is_finished (E_build_finished b s x) = True"
| "is_finished ev = False"

text \<open>A store that raises nowhere and loses no row while the build runs.\<close>

definition calm :: "env \<Rightarrow> bool" where
  "calm e = (\<forall>call w. db_raises e call w = None \<and> \<not> vanished e call w)"

text \<open>The terminal statuses, and the invariant that ties \<^verbatim>\<open>finished_at\<close> to them.\<close>

definition terminal :: "string \<Rightarrow> bool" where
  "terminal s = (s = ''success'' \<or> s = ''failed'')"

definition consistent :: "build \<Rightarrow> bool" where
  "consistent b = ((finished_at b \<noteq> None) = terminal (status b))"

definition row_ok :: "nat \<Rightarrow> world \<Rightarrow> bool" where
  "row_ok b w = (\<forall>r. builds w b = Some r \<longrightarrow> consistent r)"

text \<open>
  Follows the words of the specification, for comparison with \<open>progress_pct\<close>:
  \<^verbatim>\<open>round((completed_steps / total_steps) * 100)\<close>, where \<^verbatim>\<open>round\<close> of a float is the
  nearest integer, ties to even.
\<close>

definition spec_progress :: "nat \<Rightarrow> nat \<Rightarrow> int" where
  "spec_progress completed_steps total_steps =
     round_half_even (float64 (float64 (of_nat completed_steps / of_nat total_steps) * 100))"

text \<open>
  A concrete environment for the examples: a store that never raises and keeps its
  rows, and a shell that knows a handful of commands. \<^verbatim>\<open>seq 37\<close> prints 37 lines, the
  command \<^verbatim>\<open>7\<close> is a number and cannot be spawned (\<^verbatim>\<open>Popen\<close> raises \<^verbatim>\<open>TypeError\<close>).
\<close>

definition seq_lines :: "nat \<Rightarrow> string list" where
  "seq_lines n = map (\<lambda>k. replicate (Suc k) (CHR ''x'') @ [CHR 0x0A]) [0..<n]"

definition example_popen :: "nat \<Rightarrow> json \<Rightarrow> exn + (string list \<times> int)" where
  "example_popen index cmd =
     (if cmd = JStr ''echo A'' then Inr ([''A'' @ [CHR 0x0A]], 0)
      else if cmd = JStr ''echo C'' then Inr ([''C'' @ [CHR 0x0A]], 0)
      else if cmd = JStr ''false'' then Inr ([], 1)
      else if cmd = JStr ''seq 37'' then Inr (seq_lines 37, 0)
      else if cmd = JNum 7 then Inl (Exn ''TypeError'' ''expected str, bytes or os.PathLike object, not int'')
      else Inr ([], 127))"

definition example_env :: "(string \<Rightarrow> exn + json) \<Rightarrow> env" where
  "example_env loads =
     \<lparr>json_loads = loads, popen = example_popen, db_raises = (\<lambda>call w. None),
      vanished = (\<lambda>call w. False), now = (\<lambda>call. 1000)\<rparr>"

text \<open>
  The pipeline of the specification's example scenario, whose second step fails, and
  a pipeline of three steps that all pass. The oracles below stand for \<^verbatim>\<open>json.loads\<close>
  on the text of either.
\<close>

definition scenario_steps :: "json list" where
  "scenario_steps = [JObj [(''cmd'', JStr ''echo A'')], JObj [(''cmd'', JStr ''false'')],
                     JObj [(''cmd'', JStr ''echo C'')]]"

definition scenario_loads :: "string \<Rightarrow> exn + json" where
  "scenario_loads s = Inr (JObj [(''steps'', JArr scenario_steps)])"

definition passing_steps :: "json list" where
  "passing_steps = [JObj [(''cmd'', JStr ''echo A'')], JObj [(''cmd'', JStr ''seq 37'')],
                    JObj [(''cmd'', JStr ''echo C'')]]"

definition passing_loads :: "string \<Rightarrow> exn + json" where
  "passing_loads s = Inr (JObj [(''steps'', JArr passing_steps)])"

text \<open>
  Three more situations: a configuration that is not JSON; a store whose commits
  raise once the build is running (a locked database), under a pipeline of one step
  that prints a line; and a row that another task deletes while the only step, a
  failing one, runs.
\<close>

definition broken_loads :: "string \<Rightarrow> exn + json" where
  "broken_loads s = Inl (Exn ''JSONDecodeError'' ''Expecting value: line 1 column 1 (char 0)'')"

definition one_step_loads :: "string \<Rightarrow> exn + json" where
  "one_step_loads s = Inr (JObj [(''steps'', JArr [JObj [(''cmd'', JStr ''echo A'')]])])"

definition locked :: exn where
  "locked = Exn ''OperationalError'' ''database is locked''"

definition locked_env :: env where
  "locked_env = (example_env one_step_loads)
     \<lparr>db_raises := (\<lambda>call w. if call = Commit_71 \<or> call = Commit_157 then Some locked
                                else None)\<rparr>"

definition failing_loads :: "string \<Rightarrow> exn + json" where
  "failing_loads s = Inr (JObj [(''steps'', JArr [JObj [(''cmd'', JStr ''false'')]])])"

definition deleting_env :: env where
  "deleting_env = (example_env failing_loads)\<lparr>vanished := (\<lambda>call w. call = Get_127)\<rparr>"

text \<open>A build as \<^verbatim>\<open>run_pipeline\<close> of \<^verbatim>\<open>app.py\<close> creates it, and a world that holds it.\<close>

definition queued_build :: build where
  "queued_build = \<lparr>pipeline_id = 1, status = ''queued'', started_at = Some 990,
                    finished_at = None\<rparr>"

definition example_world :: world where
  "example_world = \<lparr>builds = [1 \<mapsto> queued_build], build_logs = [], emitted = [],
                     console = []\<rparr>"

section \<open>The streaming loop\<close>

lemma throttled_Nil: "cd < 5 \<Longrightarrow> throttled cd [] = []"
  by (simp add: throttled_def)

lemma throttled_Cons_emit: "throttled 4 (t # ts) = t # throttled 0 ts"
proof -
  have n: "(4 + length (t # ts)) div 5 = Suc (length ts div 5)" by simp
  have "throttled 4 (t # ts) = map (\<lambda>j. (t # ts) ! (5 * j)) [0..<Suc (length ts div 5)]"
    unfolding throttled_def n by simp
  also have "\<dots> = t # map (\<lambda>j. (t # ts) ! (5 * Suc j)) [0..<length ts div 5]"
    by (simp only: upt_conv_Cons[OF zero_less_Suc] map_Suc_upt[symmetric] list.map map_map o_def)
       simp
  also have "\<dots> = t # throttled 0 ts"
    by (simp add: throttled_def ac_simps)
  finally show ?thesis .
qed

lemma throttled_Cons_skip:
  assumes "cd < 4"
  shows "throttled cd (t # ts) = throttled (Suc cd) ts"
proof -
  have "(t # ts) ! (5 * j + 4 - cd) = ts ! (5 * j + 4 - Suc cd)" for j
    using assms by (simp add: nth_Cons')
  then show ?thesis by (simp add: throttled_def)
qed

lemma throttled_map:
  "throttled 0 (map f ls) = map (\<lambda>j. f (ls ! (5 * j + 4))) [0..<length ls div 5]"
proof -
  have "5 * j + 4 < length ls" if "j < length ls div 5" for j
    using that by arith
  then show ?thesis by (simp add: throttled_def)
qed

lemma world_simps:
  "builds (emit ev w) = builds w" "build_logs (emit ev w) = build_logs w"
  "emitted (emit ev w) = emitted w @ [ev]" "console (emit ev w) = console w"
  "builds (print m w) = builds w" "build_logs (print m w) = build_logs w"
  "emitted (print m w) = emitted w" "console (print m w) = console w @ [m]"
  by (simp_all add: emit_def print_def)

text \<open>One turn of the loop when the commit of line 50 does not raise.\<close>

lemma stream_lines_step:
  assumes nf: "\<And>w. db_raises e Commit_50 w = None"
    and "length buffer < 15" and "cd < 5"
  shows "stream_lines e b i (l # ls) buffer cd w =
     stream_lines e b i ls
       (if length buffer = 14 then [] else buffer @ [rstrip_nl l])
       (if cd = 4 then 0 else Suc cd)
       ((if cd = 4 then emit (E_build_log b i (rstrip_nl l)) else id)
         ((if length buffer = 14
           then (\<lambda>w1. w1\<lparr>build_logs := build_logs w1 @
                         map (BuildLog b i) (buffer @ [rstrip_nl l])\<rparr>)
           else id) (print (LineOut b i (rstrip_nl l)) w)))"
  using assms(2,3) by (auto simp: Let_def flush_def nf)

text \<open>
  The whole loop from any buffer shorter than 15 and any counter below 5: the rows
  stored are the longest prefix of the lines seen whose length is a multiple of 15,
  the rest is still in the buffer, and the events are the throttled lines.
\<close>

lemma stream_lines_no_fault:
  assumes nf: "\<And>w. db_raises e Commit_50 w = None"
    and "length buffer < 15" and "cd < 5"
  shows "fst (stream_lines e b i ls buffer cd w) =
            Inr (drop (length buffer + length ls - (length buffer + length ls) mod 15)
                    (buffer @ map rstrip_nl ls),
                  (cd + length ls) mod 5)
          \<and> build_logs (snd (stream_lines e b i ls buffer cd w)) =
              build_logs w @ map (BuildLog b i)
               (take (length buffer + length ls - (length buffer + length ls) mod 15)
                  (buffer @ map rstrip_nl ls))
          \<and> emitted (snd (stream_lines e b i ls buffer cd w)) =
              emitted w @ map (E_build_log b i) (throttled cd (map rstrip_nl ls))
          \<and> builds (snd (stream_lines e b i ls buffer cd w)) = builds w
          \<and> console (snd (stream_lines e b i ls buffer cd w)) =
              console w @ map (\<lambda>l. LineOut b i (rstrip_nl l)) ls"
  using assms(2,3)
proof (induction ls arbitrary: buffer cd w)
  case Nil
  then show ?case by (simp add: throttled_Nil)
next
  case (Cons l ls)
  note step = stream_lines_step[OF nf Cons.prems, of b i l ls w]
  let ?t = "rstrip_nl l"
  have "(cd + Suc n) mod 5 = ((if cd = 4 then 0 else Suc cd) + n) mod 5" for n :: nat
    by presburger
  then have cdm: "(cd + length (l # ls)) mod 5 = ((if cd = 4 then 0 else Suc cd) + length ls) mod 5"
    by simp
  show ?case
  proof (cases "length buffer = 14")
    case full: True
    show ?thesis
    proof (cases "cd = 4")
      case True
      show ?thesis unfolding step cdm using full True
        by (simp add: Cons.IH[of "[]" 0] world_simps throttled_Cons_emit Suc_diff_le)
    next
      case False
      with Cons.prems have "cd < 4" by simp
      then show ?thesis unfolding step cdm using full
        by (simp add: Cons.IH[of "[]" "Suc cd"] world_simps throttled_Cons_skip Suc_diff_le)
    qed
  next
    case notfull: False
    with Cons.prems have lt: "length (buffer @ [?t]) < 15" by simp
    show ?thesis
    proof (cases "cd = 4")
      case True
      show ?thesis unfolding step cdm using notfull True
        by (simp add: Cons.IH[OF lt, of 0] world_simps throttled_Cons_emit)
    next
      case False
      with Cons.prems have "cd < 4" by simp
      then show ?thesis unfolding step cdm using notfull
        by (simp add: Cons.IH[OF lt, of "Suc cd"] world_simps throttled_Cons_skip)
    qed
  qed
qed

section \<open>A step whose process was spawned\<close>

lemma run_command_and_stream_spawned:
  assumes cmd: "truthy cmd" and sp: "popen e i cmd = Inr (raw, rc)"
    and nf50: "\<And>w. db_raises e Commit_50 w = None"
    and nf71: "\<And>w. db_raises e Commit_71 w = None"
  shows "fst (run_command_and_stream e b i cmd w) = Inr rc"
    and "build_logs (snd (run_command_and_stream e b i cmd w)) =
           build_logs w @ map (BuildLog b i) (map rstrip_nl (readlines raw))"
    and "emitted (snd (run_command_and_stream e b i cmd w)) =
           emitted w @ map (E_build_log b i) (throttled 0 (map rstrip_nl (readlines raw)))"
    and "builds (snd (run_command_and_stream e b i cmd w)) = builds w"
    and "console (snd (run_command_and_stream e b i cmd w)) =
           console w @ map (\<lambda>l. LineOut b i (rstrip_nl l)) (readlines raw) @ [ReturnCode b i rc]"
proof -
  let ?ls = "readlines raw"
  let ?ts = "map rstrip_nl ?ls"
  let ?k = "length ?ls - length ?ls mod 15"
  let ?r = "stream_lines e b i ?ls [] 0 w"
  obtain res W1 where r0: "?r = (res, W1)" by (cases ?r)
  from stream_lines_no_fault[OF nf50, of "[]" 0 b i ?ls w]
  have f: "res = Inr (drop ?k ?ts, length ?ls mod 5)"
    and l: "build_logs W1 = build_logs w @ map (BuildLog b i) (take ?k ?ts)"
    and m: "emitted W1 = emitted w @ map (E_build_log b i) (throttled 0 ?ts)"
    and s: "builds W1 = builds w"
    and c: "console W1 = console w @ map (\<lambda>l. LineOut b i (rstrip_nl l)) ?ls"
    by (simp_all add: r0)
  have r: "?r = (Inr (drop ?k ?ts, length ?ls mod 5), W1)"
    using r0 f by simp
  have all: "map (BuildLog b i) (take ?k ?ts) @ map (BuildLog b i) (drop ?k ?ts)
               = map (BuildLog b i) ?ts"
    by (simp only: map_append[symmetric] append_take_drop_id)
  have run: "run_command_and_stream e b i cmd w =
     (Inr rc, print (ReturnCode b i rc)
        (if drop ?k ?ts \<noteq> []
         then W1\<lparr>build_logs := build_logs W1 @ map (BuildLog b i) (drop ?k ?ts)\<rparr>
         else W1))"
    unfolding run_command_and_stream_def using cmd sp
    by (simp add: r flush_def nf71 del: stream_lines.simps)
  show "fst (run_command_and_stream e b i cmd w) = Inr rc"
    unfolding run by simp
  show "build_logs (snd (run_command_and_stream e b i cmd w)) =
           build_logs w @ map (BuildLog b i) (map rstrip_nl (readlines raw))"
  proof (cases "drop ?k ?ts = []")
    case True
    with all have "map (BuildLog b i) (take ?k ?ts) = map (BuildLog b i) ?ts" by simp
    with True show ?thesis unfolding run by (simp add: world_simps l)
  next
    case False
    with all show ?thesis unfolding run by (simp add: world_simps l)
  qed
  show "emitted (snd (run_command_and_stream e b i cmd w)) =
           emitted w @ map (E_build_log b i) (throttled 0 (map rstrip_nl (readlines raw)))"
    unfolding run by (simp add: world_simps m)
  show "builds (snd (run_command_and_stream e b i cmd w)) = builds w"
    unfolding run by (simp add: world_simps s)
  show "console (snd (run_command_and_stream e b i cmd w)) =
           console w @ map (\<lambda>l. LineOut b i (rstrip_nl l)) (readlines raw) @ [ReturnCode b i rc]"
    unfolding run by (simp add: world_simps c)
qed

lemma readlines_seq_lines: "readlines (seq_lines n) = seq_lines n"
  unfolding readlines_def seq_lines_def by (rule takeWhile_eq_all_conv[THEN iffD2]) auto

lemma length_seq_lines: "length (seq_lines n) = n"
  by (simp add: seq_lines_def)

lemma example_env_simps:
  "json_loads (example_env loads) = loads"
  "popen (example_env loads) = example_popen"
  "db_raises (example_env loads) call w = None"
  "vanished (example_env loads) call w = False"
  "now (example_env loads) call = 1000"
  by (simp_all add: example_env_def)

text \<open>
  C2 (log completeness). A step whose process prints \<open>L\<close> lines, with a store that
  accepts the commits of lines 50 and 71: the rows added to \<^verbatim>\<open>BuildLog\<close> are exactly the
  \<open>L\<close> lines, in the order printed, all under this build and step index, so the number
  of rows of this build and step grows by \<open>L\<close>. Inside the loop the buffer is
  committed whenever it reaches 15 lines: when the stream ends, the first
  \<open>L - L mod 15\<close> lines are stored and the last \<open>L mod 15\<close> are in the buffer, which
  the flush after the loop stores.
\<close>

theorem log_completeness:
  assumes "truthy cmd" and "popen e i cmd = Inr (raw, rc)"
    and "\<forall>w. db_raises e Commit_50 w = None"
    and "\<forall>w. db_raises e Commit_71 w = None"
  shows "build_logs (snd (run_command_and_stream e b i cmd w)) =
           build_logs w @ map (\<lambda>l. BuildLog b i (rstrip_nl l)) (readlines raw)
       \<and> length [r \<leftarrow> build_logs (snd (run_command_and_stream e b i cmd w)).
                   log_build_id r = b \<and> log_step_index r = i] =
         length [r \<leftarrow> build_logs w. log_build_id r = b \<and> log_step_index r = i]
           + length (readlines raw)
       \<and> fst (stream_lines e b i (readlines raw) [] 0 w) =
           Inr (drop (length (readlines raw) - length (readlines raw) mod 15)
                  (map rstrip_nl (readlines raw)),
                length (readlines raw) mod 5)
       \<and> build_logs (snd (stream_lines e b i (readlines raw) [] 0 w)) =
           build_logs w @ map (BuildLog b i)
             (take (length (readlines raw) - length (readlines raw) mod 15)
                (map rstrip_nl (readlines raw)))"
proof -
  have nf50: "\<And>w. db_raises e Commit_50 w = None" and nf71: "\<And>w. db_raises e Commit_71 w = None"
    using assms(3,4) by simp_all
  have rows: "build_logs (snd (run_command_and_stream e b i cmd w)) =
           build_logs w @ map (\<lambda>l. BuildLog b i (rstrip_nl l)) (readlines raw)"
    using run_command_and_stream_spawned(2)[OF assms(1,2) nf50 nf71, of b w]
    by (simp add: o_def)
  have mine: "[r \<leftarrow> map (\<lambda>l. BuildLog b i (rstrip_nl l)) ls.
                 log_build_id r = b \<and> log_step_index r = i]
              = map (\<lambda>l. BuildLog b i (rstrip_nl l)) ls" for ls
    by (induction ls) (simp_all add: BuildLog_def)
  have count: "length [r \<leftarrow> build_logs (snd (run_command_and_stream e b i cmd w)).
                   log_build_id r = b \<and> log_step_index r = i] =
         length [r \<leftarrow> build_logs w. log_build_id r = b \<and> log_step_index r = i]
           + length (readlines raw)"
    unfolding rows filter_append mine by simp
  from stream_lines_no_fault[OF nf50, of "[]" 0 b i "readlines raw" w]
  show ?thesis using rows count by simp
qed

theorem log_completeness_witness:
  "truthy (JStr ''seq 37'')
   \<and> popen (example_env (\<lambda>s. Inr (JObj []))) 0 (JStr ''seq 37'') = Inr (seq_lines 37, 0)
   \<and> (\<forall>w. db_raises (example_env (\<lambda>s. Inr (JObj []))) Commit_50 w = None)
   \<and> (\<forall>w. db_raises (example_env (\<lambda>s. Inr (JObj []))) Commit_71 w = None)
   \<and> length (readlines (seq_lines 37)) = 37
   \<and> length (build_logs (snd (run_command_and_stream (example_env (\<lambda>s. Inr (JObj []))) 1 0
                 (JStr ''seq 37'') example_world))) = 37
   \<and> length (build_logs (snd (stream_lines (example_env (\<lambda>s. Inr (JObj []))) 1 0
                 (readlines (seq_lines 37)) [] 0 example_world))) = 30"
proof -
  let ?e = "example_env (\<lambda>s. Inr (JObj []))"
  have h1: "truthy (JStr ''seq 37'')" by simp
  have h2: "popen ?e 0 (JStr ''seq 37'') = Inr (seq_lines 37, 0)"
    by (simp add: example_env_simps example_popen_def)
  have h3: "\<forall>w. db_raises ?e Commit_50 w = None" by (simp add: example_env_simps)
  have h4: "\<forall>w. db_raises ?e Commit_71 w = None" by (simp add: example_env_simps)
  from log_completeness[OF h1 h2 h3 h4, of 1 example_world]
  show ?thesis using h1 h2 h3 h4
    by (simp add: readlines_seq_lines length_seq_lines example_world_def)
qed

text \<open>
  C3 (throttle). Under the same conditions the events published while the step runs
  are one \<^verbatim>\<open>build_log\<close> for each of the lines 5, 10, 15 and so on, \<open>L div 5\<close> in all,
  whatever \<open>L\<close> is; every line is stored all the same.
\<close>

theorem throttle_correctness:
  assumes "truthy cmd" and "popen e i cmd = Inr (raw, rc)"
    and "\<forall>w. db_raises e Commit_50 w = None"
    and "\<forall>w. db_raises e Commit_71 w = None"
  shows "emitted (snd (run_command_and_stream e b i cmd w)) =
           emitted w @ map (\<lambda>j. E_build_log b i (rstrip_nl (readlines raw ! (5 * j + 4))))
                          [0..<length (readlines raw) div 5]
       \<and> length (emitted (snd (run_command_and_stream e b i cmd w))) =
           length (emitted w) + length (readlines raw) div 5
       \<and> map log_text (drop (length (build_logs w))
             (build_logs (snd (run_command_and_stream e b i cmd w)))) =
           map rstrip_nl (readlines raw)"
proof -
  have nf50: "\<And>w. db_raises e Commit_50 w = None" and nf71: "\<And>w. db_raises e Commit_71 w = None"
    using assms(3,4) by simp_all
  note facts = run_command_and_stream_spawned[OF assms(1,2) nf50 nf71, of b w]
  have ev: "emitted (snd (run_command_and_stream e b i cmd w)) =
           emitted w @ map (\<lambda>j. E_build_log b i (rstrip_nl (readlines raw ! (5 * j + 4))))
                          [0..<length (readlines raw) div 5]"
    unfolding facts(3) throttled_map by (simp add: o_def)
  have "map log_text (drop (length (build_logs w))
             (build_logs (snd (run_command_and_stream e b i cmd w)))) =
           map rstrip_nl (readlines raw)"
    unfolding facts(2) by (simp add: BuildLog_def)
  then show ?thesis using ev by simp
qed

theorem throttle_correctness_witness:
  "truthy (JStr ''seq 37'')
   \<and> popen (example_env (\<lambda>s. Inr (JObj []))) 0 (JStr ''seq 37'') = Inr (seq_lines 37, 0)
   \<and> (\<forall>w. db_raises (example_env (\<lambda>s. Inr (JObj []))) Commit_50 w = None)
   \<and> (\<forall>w. db_raises (example_env (\<lambda>s. Inr (JObj []))) Commit_71 w = None)
   \<and> length (emitted (snd (run_command_and_stream (example_env (\<lambda>s. Inr (JObj []))) 1 0
                 (JStr ''seq 37'') example_world))) = 7
   \<and> length (drop (length (build_logs example_world))
        (build_logs (snd (run_command_and_stream (example_env (\<lambda>s. Inr (JObj []))) 1 0
                 (JStr ''seq 37'') example_world)))) = 37"
proof -
  let ?e = "example_env (\<lambda>s. Inr (JObj []))"
  let ?w = "snd (run_command_and_stream ?e 1 0 (JStr ''seq 37'') example_world)"
  have h1: "truthy (JStr ''seq 37'')" by simp
  have h2: "popen ?e 0 (JStr ''seq 37'') = Inr (seq_lines 37, 0)"
    by (simp add: example_env_simps example_popen_def)
  have h3: "\<forall>w. db_raises ?e Commit_50 w = None" by (simp add: example_env_simps)
  have h4: "\<forall>w. db_raises ?e Commit_71 w = None" by (simp add: example_env_simps)
  note t = throttle_correctness[OF h1 h2 h3 h4, of 1 example_world]
  have n: "length (emitted ?w) = 7"
    using t by (simp add: readlines_seq_lines length_seq_lines example_world_def)
  have "length (map log_text (drop (length (build_logs example_world)) (build_logs ?w))) = 37"
    using t by (simp only: readlines_seq_lines length_map length_seq_lines)
  then show ?thesis using h1 h2 h3 h4 n by simp
qed

text \<open>
  C8 (process spawn failure). When \<^verbatim>\<open>Popen\<close> raises for a command, the function
  prints the diagnostic and returns 1 without raising; nothing else changes. In
  the loop over the steps the code 1 takes the branch of a failed step: the row is
  written \<^verbatim>\<open>failed\<close> and the steps after it are not looked at.
\<close>

theorem spawn_failure_returns_1:
  assumes "truthy cmd" and "popen e i cmd = Inl x"
    and "dict_get step ''cmd'' JNull = Inr cmd"
  shows "run_command_and_stream e b i cmd w = (Inr 1, print (StartFailed b i x) w)
       \<and> run_steps e b total_steps i (step # rest) w =
          (case finish_build e Get_127 Commit_130 b ''failed''
                  (emit (E_build_progress b (progress_pct i total_steps))
                     (print (StartFailed b i x) (emit (E_build_step_start b i cmd) w))) of
             (Inl y, w4) \<Rightarrow> (Inl y, w4)
           | (Inr u, w4) \<Rightarrow> (Inr Returned, emit (E_build_finished b ''failed'' None) w4))"
proof -
  have r: "run_command_and_stream e b i cmd w' = (Inr 1, print (StartFailed b i x) w')" for w'
    using assms(1,2) by (simp add: run_command_and_stream_def)
  show ?thesis using assms(3) by (simp add: r)
qed

theorem spawn_failure_returns_1_witness:
  "truthy (JNum 7)
   \<and> popen (example_env (\<lambda>s. Inr (JObj []))) 0 (JNum 7) =
        Inl (Exn ''TypeError'' ''expected str, bytes or os.PathLike object, not int'')
   \<and> dict_get (JObj [(''cmd'', JNum 7)]) ''cmd'' JNull = Inr (JNum 7)
   \<and> fst (run_command_and_stream (example_env (\<lambda>s. Inr (JObj []))) 1 0 (JNum 7) example_world)
        = Inr 1
   \<and> fst (run_steps (example_env (\<lambda>s. Inr (JObj []))) 1 2 0
            [JObj [(''cmd'', JNum 7)], JObj [(''cmd'', JStr ''echo C'')]] example_world)
        = Inr Returned
   \<and> map_option status
        (builds (snd (run_steps (example_env (\<lambda>s. Inr (JObj []))) 1 2 0
            [JObj [(''cmd'', JNum 7)], JObj [(''cmd'', JStr ''echo C'')]] example_world)) 1)
        = Some ''failed''"
proof -
  let ?e = "example_env (\<lambda>s. Inr (JObj []))"
  let ?x = "Exn ''TypeError'' ''expected str, bytes or os.PathLike object, not int''"
  have h1: "truthy (JNum 7)" by simp
  have h2: "popen ?e 0 (JNum 7) = Inl ?x"
    by (simp add: example_env_simps example_popen_def)
  have h3: "dict_get (JObj [(''cmd'', JNum 7)]) ''cmd'' JNull = Inr (JNum 7)"
    by (simp add: dict_get_def)
  from spawn_failure_returns_1[OF h1 h2 h3, of 1 example_world 2 "[JObj [(''cmd'', JStr ''echo C'')]]"]
  show ?thesis using h1 h2 h3
    by (simp add: finish_build_def db_session_get_def db_commit_build_def example_env_simps
          world_simps example_world_def)
qed

section \<open>The loop over the steps with a calm store\<close>

lemma run_command_and_stream_calm:
  assumes nf50: "\<And>w. db_raises e Commit_50 w = None"
    and nf71: "\<And>w. db_raises e Commit_71 w = None"
  shows "fst (run_command_and_stream e b i cmd w) = Inr (exit_code e i cmd)"
    and "build_logs (snd (run_command_and_stream e b i cmd w)) =
           build_logs w @ map (BuildLog b i) (step_lines e i cmd)"
    and "emitted (snd (run_command_and_stream e b i cmd w)) =
           emitted w @ map (E_build_log b i) (throttled 0 (step_lines e i cmd))"
    and "builds (snd (run_command_and_stream e b i cmd w)) = builds w"
proof -
  consider (empty) "\<not> truthy cmd"
    | (unspawned) x where "truthy cmd" "popen e i cmd = Inl x"
    | (spawned) raw rc where "truthy cmd" "popen e i cmd = Inr (raw, rc)"
    by (cases "popen e i cmd") auto
  then have "fst (run_command_and_stream e b i cmd w) = Inr (exit_code e i cmd)
    \<and> build_logs (snd (run_command_and_stream e b i cmd w)) =
           build_logs w @ map (BuildLog b i) (step_lines e i cmd)
    \<and> emitted (snd (run_command_and_stream e b i cmd w)) =
           emitted w @ map (E_build_log b i) (throttled 0 (step_lines e i cmd))
    \<and> builds (snd (run_command_and_stream e b i cmd w)) = builds w"
  proof cases
    case empty
    then show ?thesis
      by (simp add: run_command_and_stream_def exit_code_def step_lines_def throttled_def)
  next
    case unspawned
    then show ?thesis
      by (simp add: run_command_and_stream_def exit_code_def step_lines_def throttled_def
            world_simps)
  next
    case spawned
    from run_command_and_stream_spawned[OF spawned nf50 nf71, of b w] spawned
    show ?thesis by (simp add: exit_code_def step_lines_def)
  qed
  then show "fst (run_command_and_stream e b i cmd w) = Inr (exit_code e i cmd)"
    and "build_logs (snd (run_command_and_stream e b i cmd w)) =
           build_logs w @ map (BuildLog b i) (step_lines e i cmd)"
    and "emitted (snd (run_command_and_stream e b i cmd w)) =
           emitted w @ map (E_build_log b i) (throttled 0 (step_lines e i cmd))"
    and "builds (snd (run_command_and_stream e b i cmd w)) = builds w"
    by simp_all
qed

lemma dict_get_cmd: "is_dict step \<Longrightarrow> dict_get step ''cmd'' JNull = Inr (step_cmd step)"
  by (cases step) (simp_all add: step_cmd_def dict_get_def)

text \<open>One passing step.\<close>

lemma run_steps_pass:
  assumes "calm e" and "is_dict step" and "exit_code e i (step_cmd step) = 0"
  shows "\<exists>W. run_steps e b n i (step # rest) w = run_steps e b n (Suc i) rest W
           \<and> emitted W = emitted w @ step_events e b n i (step_cmd step)
           \<and> build_logs W = build_logs w @ map (BuildLog b i) (step_lines e i (step_cmd step))
           \<and> builds W = builds w"
proof -
  let ?cmd = "step_cmd step"
  let ?w1 = "emit (E_build_step_start b i ?cmd) w"
  let ?r = "run_command_and_stream e b i ?cmd ?w1"
  have nf: "\<And>c w. db_raises e c w = None" using assms(1) by (simp add: calm_def)
  obtain res W2 where r: "?r = (res, W2)" by (cases ?r)
  from run_command_and_stream_calm[OF nf nf, of b i ?cmd ?w1]
  have res: "res = Inr 0"
    and l: "build_logs W2 = build_logs w @ map (BuildLog b i) (step_lines e i ?cmd)"
    and m: "emitted W2 = emitted w @ E_build_step_start b i ?cmd #
                map (E_build_log b i) (throttled 0 (step_lines e i ?cmd))"
    and s: "builds W2 = builds w"
    using assms(3) by (simp_all add: r world_simps)
  let ?W = "emit (E_build_progress b (progress_pct i n)) W2"
  have "run_steps e b n i (step # rest) w = run_steps e b n (Suc i) rest ?W"
    using r res by (simp add: dict_get_cmd[OF assms(2)])
  moreover have "emitted ?W = emitted w @ step_events e b n i ?cmd"
    by (simp add: world_simps m step_events_def)
  moreover have "build_logs ?W = build_logs w @ map (BuildLog b i) (step_lines e i ?cmd)"
    by (simp add: world_simps l)
  moreover have "builds ?W = builds w" by (simp add: world_simps s)
  ultimately show ?thesis by blast
qed

text \<open>A run of passing steps at the head of the list.\<close>

lemma run_steps_prefix:
  assumes "calm e" and "\<forall>s\<in>set pre. is_dict s"
    and "\<forall>j<length pre. exit_code e (i + j) (step_cmd (pre ! j)) = 0"
  shows "\<exists>W. run_steps e b n i (pre @ rest) w = run_steps e b n (i + length pre) rest W
           \<and> emitted W = emitted w @
               concat (map (\<lambda>j. step_events e b n (i + j) (step_cmd (pre ! j))) [0..<length pre])
           \<and> build_logs W = build_logs w @
               concat (map (\<lambda>j. map (BuildLog b (i + j)) (step_lines e (i + j) (step_cmd (pre ! j))))
                        [0..<length pre])
           \<and> builds W = builds w"
  using assms(2,3)
proof (induction pre arbitrary: i w)
  case Nil
  show ?case by (rule exI[of _ w]) simp
next
  case (Cons s pre)
  have d: "is_dict s" and z: "exit_code e i (step_cmd s) = 0"
    using Cons.prems by auto
  from run_steps_pass[OF assms(1) d z, of b n "pre @ rest" w]
  obtain W1 where 1: "run_steps e b n i (s # pre @ rest) w = run_steps e b n (Suc i) (pre @ rest) W1"
    and e1: "emitted W1 = emitted w @ step_events e b n i (step_cmd s)"
    and l1: "build_logs W1 = build_logs w @ map (BuildLog b i) (step_lines e i (step_cmd s))"
    and b1: "builds W1 = builds w" by blast
  have p: "\<forall>j<length pre. exit_code e (Suc i + j) (step_cmd (pre ! j)) = 0"
    using Cons.prems(2) by (auto dest: spec[where x="Suc j" for j])
  from Cons.IH[of "Suc i" W1] Cons.prems(1) p
  obtain W where 2: "run_steps e b n (Suc i) (pre @ rest) W1 = run_steps e b n (Suc i + length pre) rest W"
    and e2: "emitted W = emitted W1 @
               concat (map (\<lambda>j. step_events e b n (Suc i + j) (step_cmd (pre ! j))) [0..<length pre])"
    and l2: "build_logs W = build_logs W1 @
               concat (map (\<lambda>j. map (BuildLog b (Suc i + j)) (step_lines e (Suc i + j) (step_cmd (pre ! j))))
                        [0..<length pre])"
    and b2: "builds W = builds W1" by auto
  have "run_steps e b n i ((s # pre) @ rest) w = run_steps e b n (i + length (s # pre)) rest W"
    using 1 2 by simp
  moreover have "emitted W = emitted w @
      concat (map (\<lambda>j. step_events e b n (i + j) (step_cmd ((s # pre) ! j))) [0..<length (s # pre)])"
    unfolding e2 e1 by (simp add: upt_conv_Cons map_Suc_upt[symmetric] o_def del: upt_Suc)
  moreover have "build_logs W = build_logs w @
      concat (map (\<lambda>j. map (BuildLog b (i + j)) (step_lines e (i + j) (step_cmd ((s # pre) ! j))))
                        [0..<length (s # pre)])"
    unfolding l2 l1 by (simp add: upt_conv_Cons map_Suc_upt[symmetric] o_def del: upt_Suc)
  moreover have "builds W = builds w" using b1 b2 by simp
  ultimately show ?case by blast
qed

text \<open>The first failing step.\<close>

lemma run_steps_fail:
  assumes "calm e" and "is_dict step" and "exit_code e i (step_cmd step) \<noteq> 0"
    and "builds w b = Some b0"
  shows "\<exists>W. run_steps e b n i (step # rest) w = (Inr Returned, W)
           \<and> emitted W = emitted w @ step_events e b n i (step_cmd step)
                            @ [E_build_finished b ''failed'' None]
           \<and> build_logs W = build_logs w @ map (BuildLog b i) (step_lines e i (step_cmd step))
           \<and> builds W = (builds w)(b \<mapsto> b0\<lparr>status := ''failed'',
                                              finished_at := Some (now e Commit_130)\<rparr>)"
proof -
  let ?cmd = "step_cmd step"
  let ?w1 = "emit (E_build_step_start b i ?cmd) w"
  let ?r = "run_command_and_stream e b i ?cmd ?w1"
  have nf: "\<And>c w. db_raises e c w = None" and nv: "\<And>c w. \<not> vanished e c w"
    using assms(1) by (simp_all add: calm_def)
  obtain res W2 where r: "?r = (res, W2)" by (cases ?r)
  from run_command_and_stream_calm[OF nf nf, of b i ?cmd ?w1]
  have res: "res = Inr (exit_code e i ?cmd)"
    and l: "build_logs W2 = build_logs w @ map (BuildLog b i) (step_lines e i ?cmd)"
    and m: "emitted W2 = emitted w @ E_build_step_start b i ?cmd #
                map (E_build_log b i) (throttled 0 (step_lines e i ?cmd))"
    and s: "builds W2 = builds w"
    by (simp_all add: r world_simps)
  let ?W3 = "emit (E_build_progress b (progress_pct i n)) W2"
  let ?W4 = "?W3\<lparr>builds := (builds ?W3)(b \<mapsto> b0\<lparr>status := ''failed'',
                                              finished_at := Some (now e Commit_130)\<rparr>)\<rparr>"
  let ?W = "emit (E_build_finished b ''failed'' None) ?W4"
  have fin: "finish_build e Get_127 Commit_130 b ''failed'' ?W3 = (Inr (), ?W4)"
    using assms(4) by (simp add: finish_build_def db_session_get_def db_commit_build_def nf nv
        world_simps s)
  have "run_steps e b n i (step # rest) w = (Inr Returned, ?W)"
    using r res assms(3) by (simp add: dict_get_cmd[OF assms(2)] fin)
  moreover have "emitted ?W = emitted w @ step_events e b n i ?cmd @ [E_build_finished b ''failed'' None]"
    by (simp add: world_simps m step_events_def)
  moreover have "build_logs ?W = build_logs w @ map (BuildLog b i) (step_lines e i ?cmd)"
    by (simp add: world_simps l)
  moreover have "builds ?W = (builds w)(b \<mapsto> b0\<lparr>status := ''failed'',
                                              finished_at := Some (now e Commit_130)\<rparr>)"
    by (simp add: world_simps s)
  ultimately show ?thesis by blast
qed

section \<open>The whole run with a calm store\<close>

lemma entry_found:
  assumes "db_raises e Get_84 w = None" and "\<not> vanished e Get_84 w"
    and "db_raises e Commit_90 w = None" and "builds w b = Some b0"
  shows "run_build_thread e b cfg w =
     (case try_body e b cfg (emit (E_build_status_update b ''running'')
              (w\<lparr>builds := (builds w)(b \<mapsto> b0\<lparr>status := ''running''\<rparr>)\<rparr>)) of
        (Inr u, w4) \<Rightarrow> (None, w4)
      | (Inl x, w4) \<Rightarrow> handler e b x w4)"
  using assms
  by (simp add: run_build_thread_def db_session_get_def db_commit_build_def)

lemma try_body_steps:
  assumes "json_loads e (config_text cfg) = Inr config"
    and "dict_get config ''steps'' (JArr []) = Inr (JArr steps)"
  shows "try_body e b cfg w =
     (case run_steps e b (if length steps = 0 then 1 else length steps) 0 steps w of
        (Inl x, w1) \<Rightarrow> (Inl x, w1)
      | (Inr Returned, w1) \<Rightarrow> (Inr (), w1)
      | (Inr Exhausted, w1) \<Rightarrow>
          (case finish_build e Get_140 Commit_143 b ''success'' w1 of
             (Inl x, w2) \<Rightarrow> (Inl x, w2)
           | (Inr u, w2) \<Rightarrow> (Inr (), emit (E_build_finished b ''success'' None) w2)))"
  using assms by (simp add: try_body_def py_len_def py_iter_def)

lemma run_build_thread_fails_at:
  assumes c: "calm e" and b0: "builds w b = Some b0"
    and cfg: "json_loads e (config_text cfg) = Inr config"
       "dict_get config ''steps'' (JArr []) = Inr (JArr steps)"
    and d: "\<forall>s\<in>set steps. is_dict s"
    and k: "k < length steps"
    and pass: "\<forall>j<k. exit_code e j (step_cmd (steps ! j)) = 0"
    and fail: "exit_code e k (step_cmd (steps ! k)) \<noteq> 0"
  shows "\<exists>W. run_build_thread e b cfg w = (None, W)
     \<and> emitted W = emitted w @ E_build_status_update b ''running'' #
          concat (map (\<lambda>j. step_events e b (length steps) j (step_cmd (steps ! j))) [0..<Suc k])
          @ [E_build_finished b ''failed'' None]
     \<and> build_logs W = build_logs w @
          concat (map (\<lambda>j. map (BuildLog b j) (step_lines e j (step_cmd (steps ! j)))) [0..<Suc k])
     \<and> builds W = (builds w)(b \<mapsto> b0\<lparr>status := ''failed'',
                                         finished_at := Some (now e Commit_130)\<rparr>)"
proof -
  let ?n = "length steps"
  let ?w3 = "emit (E_build_status_update b ''running'')
              (w\<lparr>builds := (builds w)(b \<mapsto> b0\<lparr>status := ''running''\<rparr>)\<rparr>)"
  have nf: "\<And>c w. db_raises e c w = None" and nv: "\<And>c w. \<not> vanished e c w"
    using c by (simp_all add: calm_def)
  have split: "steps = take k steps @ steps ! k # drop (Suc k) steps"
    using k by (simp add: id_take_nth_drop)
  have dpre: "\<forall>s\<in>set (take k steps). is_dict s" using d by (auto dest: in_set_takeD)
  have ppre: "\<forall>j<length (take k steps). exit_code e (0 + j) (step_cmd (take k steps ! j)) = 0"
    using pass k by simp
  have len: "length (take k steps) = k" using k by simp
  from run_steps_prefix[OF c dpre ppre, of b ?n "steps ! k # drop (Suc k) steps" ?w3]
  obtain W1 where 0: "run_steps e b ?n 0 (take k steps @ steps ! k # drop (Suc k) steps) ?w3
                   = run_steps e b ?n (0 + length (take k steps)) (steps ! k # drop (Suc k) steps) W1"
    and e0: "emitted W1 = emitted ?w3 @
               concat (map (\<lambda>j. step_events e b ?n (0 + j) (step_cmd (take k steps ! j)))
                        [0..<length (take k steps)])"
    and l0: "build_logs W1 = build_logs ?w3 @
               concat (map (\<lambda>j. map (BuildLog b (0 + j))
                               (step_lines e (0 + j) (step_cmd (take k steps ! j))))
                        [0..<length (take k steps)])"
    and b1: "builds W1 = builds ?w3"
    by blast
  have 1: "run_steps e b ?n 0 steps ?w3 = run_steps e b ?n k (steps ! k # drop (Suc k) steps) W1"
    using 0 unfolding len split[symmetric] by (simp del: run_steps.simps)
  have me: "map (\<lambda>j. step_events e b ?n (0 + j) (step_cmd (take k steps ! j))) [0..<k]
            = map (\<lambda>j. step_events e b ?n j (step_cmd (steps ! j))) [0..<k]"
    by simp
  have ml: "map (\<lambda>j. map (BuildLog b (0 + j)) (step_lines e (0 + j) (step_cmd (take k steps ! j))))
               [0..<k]
            = map (\<lambda>j. map (BuildLog b j) (step_lines e j (step_cmd (steps ! j)))) [0..<k]"
    by simp
  have e1: "emitted W1 = emitted ?w3 @
               concat (map (\<lambda>j. step_events e b ?n j (step_cmd (steps ! j))) [0..<k])"
    unfolding e0 len me by simp
  have l1: "build_logs W1 = build_logs ?w3 @
               concat (map (\<lambda>j. map (BuildLog b j) (step_lines e j (step_cmd (steps ! j)))) [0..<k])"
    unfolding l0 len ml by simp
  have dk: "is_dict (steps ! k)" using d k by simp
  have bk: "builds W1 b = Some (b0\<lparr>status := ''running''\<rparr>)"
    by (simp add: b1 world_simps)
  from run_steps_fail[OF c dk fail bk, of ?n "drop (Suc k) steps"]
  obtain W where 2: "run_steps e b ?n k (steps ! k # drop (Suc k) steps) W1 = (Inr Returned, W)"
    and e2: "emitted W = emitted W1 @ step_events e b ?n k (step_cmd (steps ! k))
                            @ [E_build_finished b ''failed'' None]"
    and l2: "build_logs W = build_logs W1 @ map (BuildLog b k) (step_lines e k (step_cmd (steps ! k)))"
    and b2: "builds W = (builds W1)(b \<mapsto> b0\<lparr>status := ''running''\<rparr>\<lparr>status := ''failed'',
                                              finished_at := Some (now e Commit_130)\<rparr>)"
    by blast
  have n0: "?n \<noteq> 0" using k by auto
  have "run_build_thread e b cfg w = (None, W)"
    unfolding entry_found[OF nf nv nf b0] try_body_steps[OF cfg] using 1 2 n0 by simp
  moreover have "emitted W = emitted w @ E_build_status_update b ''running'' #
          concat (map (\<lambda>j. step_events e b ?n j (step_cmd (steps ! j))) [0..<Suc k])
          @ [E_build_finished b ''failed'' None]"
    unfolding e2 e1 by (simp add: world_simps)
  moreover have "build_logs W = build_logs w @
          concat (map (\<lambda>j. map (BuildLog b j) (step_lines e j (step_cmd (steps ! j)))) [0..<Suc k])"
    unfolding l2 l1 by (simp add: world_simps)
  moreover have "builds W = (builds w)(b \<mapsto> b0\<lparr>status := ''failed'',
                                         finished_at := Some (now e Commit_130)\<rparr>)"
    unfolding b2 b1 by (simp add: world_simps)
  ultimately show ?thesis by blast
qed

lemma run_build_thread_all_pass:
  assumes c: "calm e" and b0: "builds w b = Some b0"
    and cfg: "json_loads e (config_text cfg) = Inr config"
       "dict_get config ''steps'' (JArr []) = Inr (JArr steps)"
    and d: "\<forall>s\<in>set steps. is_dict s"
    and pass: "\<forall>j<length steps. exit_code e j (step_cmd (steps ! j)) = 0"
  shows "\<exists>W. run_build_thread e b cfg w = (None, W)
     \<and> emitted W = emitted w @ E_build_status_update b ''running'' #
          concat (map (\<lambda>j. step_events e b (if length steps = 0 then 1 else length steps) j
                               (step_cmd (steps ! j))) [0..<length steps])
          @ [E_build_finished b ''success'' None]
     \<and> build_logs W = build_logs w @
          concat (map (\<lambda>j. map (BuildLog b j) (step_lines e j (step_cmd (steps ! j))))
                   [0..<length steps])
     \<and> builds W = (builds w)(b \<mapsto> b0\<lparr>status := ''success'',
                                         finished_at := Some (now e Commit_143)\<rparr>)"
proof -
  let ?n = "if length steps = 0 then 1 else length steps"
  let ?w3 = "emit (E_build_status_update b ''running'')
              (w\<lparr>builds := (builds w)(b \<mapsto> b0\<lparr>status := ''running''\<rparr>)\<rparr>)"
  have nf: "\<And>c w. db_raises e c w = None" and nv: "\<And>c w. \<not> vanished e c w"
    using c by (simp_all add: calm_def)
  have ppre: "\<forall>j<length steps. exit_code e (0 + j) (step_cmd (steps ! j)) = 0"
    using pass by simp
  from run_steps_prefix[OF c d ppre, of b ?n "[]" ?w3]
  obtain W1 where 0: "run_steps e b ?n 0 (steps @ []) ?w3
                        = run_steps e b ?n (0 + length steps) [] W1"
    and e0: "emitted W1 = emitted ?w3 @
               concat (map (\<lambda>j. step_events e b ?n (0 + j) (step_cmd (steps ! j)))
                        [0..<length steps])"
    and l0: "build_logs W1 = build_logs ?w3 @
               concat (map (\<lambda>j. map (BuildLog b (0 + j))
                               (step_lines e (0 + j) (step_cmd (steps ! j))))
                 [0..<length steps])"
    and b1: "builds W1 = builds ?w3"
    by blast
  have 1: "run_steps e b ?n 0 steps ?w3 = (Inr Exhausted, W1)"
    using 0 by simp
  have e1: "emitted W1 = emitted ?w3 @
               concat (map (\<lambda>j. step_events e b ?n j (step_cmd (steps ! j))) [0..<length steps])"
    unfolding e0 by simp
  have l1: "build_logs W1 = build_logs ?w3 @
               concat (map (\<lambda>j. map (BuildLog b j) (step_lines e j (step_cmd (steps ! j))))
                 [0..<length steps])"
    unfolding l0 by simp
  let ?W2 = "W1\<lparr>builds := (builds W1)(b \<mapsto> b0\<lparr>status := ''running''\<rparr>\<lparr>status := ''success'',
                                         finished_at := Some (now e Commit_143)\<rparr>)\<rparr>"
  let ?W = "emit (E_build_finished b ''success'' None) ?W2"
  have fin: "finish_build e Get_140 Commit_143 b ''success'' W1 = (Inr (), ?W2)"
    by (simp add: finish_build_def db_session_get_def db_commit_build_def nf nv b1 world_simps)
  have "run_build_thread e b cfg w = (None, ?W)"
    unfolding entry_found[OF nf nv nf b0] try_body_steps[OF cfg] using 1 fin by simp
  moreover have "emitted ?W = emitted w @ E_build_status_update b ''running'' #
          concat (map (\<lambda>j. step_events e b ?n j (step_cmd (steps ! j))) [0..<length steps])
          @ [E_build_finished b ''success'' None]"
    by (simp add: world_simps e1)
  moreover have "build_logs ?W = build_logs w @
          concat (map (\<lambda>j. map (BuildLog b j) (step_lines e j (step_cmd (steps ! j))))
                   [0..<length steps])"
    by (simp add: world_simps l1)
  moreover have "builds ?W = (builds w)(b \<mapsto> b0\<lparr>status := ''success'',
                                         finished_at := Some (now e Commit_143)\<rparr>)"
    by (simp add: world_simps b1)
  ultimately show ?thesis by blast
qed

lemma filter_step_events:
  "filter is_step_start (step_events e b n i c) = [E_build_step_start b i c]"
  "filter is_progress (step_events e b n i c) = [E_build_progress b (progress_pct i n)]"
  "filter is_finished (step_events e b n i c) = []"
  by (simp_all add: step_events_def filter_map o_def)

lemma filter_concat_step_events:
  "filter is_step_start (concat (map (\<lambda>j. step_events e b n j (c j)) js))
     = map (\<lambda>j. E_build_step_start b j (c j)) js"
  "filter is_progress (concat (map (\<lambda>j. step_events e b n j (c j)) js))
     = map (\<lambda>j. E_build_progress b (progress_pct j n)) js"
  "filter is_finished (concat (map (\<lambda>j. step_events e b n j (c j)) js)) = []"
  by (induction js) (simp_all add: filter_step_events)

section \<open>Properties of the whole run\<close>

lemma float64_1: "float64 1 = 1" by code_simp
lemma float64_100: "float64 100 = 100" by code_simp

lemma progress_pct_last: "0 < n \<Longrightarrow> progress_pct (n - 1) n = 100"
  by (simp add: progress_pct_def float64_1 float64_100 py_int_def)

lemma example_calm: "calm (example_env loads)"
  by (simp add: calm_def example_env_simps)

lemma example_steps_simps:
  "step_cmd (JObj [(''cmd'', c)]) = c"
  "exit_code (example_env loads) i (JStr ''echo A'') = 0"
  "exit_code (example_env loads) i (JStr ''echo C'') = 0"
  "exit_code (example_env loads) i (JStr ''seq 37'') = 0"
  "exit_code (example_env loads) i (JStr ''false'') = 1"
  "step_lines (example_env loads) i (JStr ''echo A'') = [''A'']"
  "step_lines (example_env loads) i (JStr ''echo C'') = [''C'']"
  "step_lines (example_env loads) i (JStr ''false'') = []"
  by (simp_all add: step_cmd_def dict_get_def exit_code_def step_lines_def example_env_simps
        example_popen_def readlines_def rstrip_nl_def)

text \<open>
  C1 (fail-fast). The build's row exists, the store is calm, the configuration parses
  to a list of dict steps, and step \<open>k\<close> (counted from 0) is the first whose exit
  code is not 0. Then the function returns; the \<^verbatim>\<open>build_step_start\<close> events it
  publishes are those of the steps \<open>0\<close> to \<open>k\<close> in this order and no other; every
  \<^verbatim>\<open>BuildLog\<close> row it adds belongs to this build and to a step index of at most \<open>k\<close>;
  the row of the build ends with status \<^verbatim>\<open>failed\<close> and \<^verbatim>\<open>finished_at\<close> set; and it
  publishes exactly one \<^verbatim>\<open>build_finished\<close> event, with status \<^verbatim>\<open>failed\<close>.
\<close>

theorem fail_fast:
  assumes "calm e" and "builds w b = Some b0"
    and "json_loads e (config_text cfg) = Inr config"
    and "dict_get config ''steps'' (JArr []) = Inr (JArr steps)"
    and "\<forall>s\<in>set steps. is_dict s"
    and "k < length steps"
    and "\<forall>j<k. exit_code e j (step_cmd (steps ! j)) = 0"
    and "exit_code e k (step_cmd (steps ! k)) \<noteq> 0"
  shows "fst (run_build_thread e b cfg w) = None
     \<and> filter is_step_start (emitted (snd (run_build_thread e b cfg w))) =
         filter is_step_start (emitted w) @
         map (\<lambda>j. E_build_step_start b j (step_cmd (steps ! j))) [0..<Suc k]
     \<and> (\<forall>r\<in>set (drop (length (build_logs w)) (build_logs (snd (run_build_thread e b cfg w)))).
           log_build_id r = b \<and> log_step_index r \<le> k)
     \<and> builds (snd (run_build_thread e b cfg w)) b =
         Some (b0\<lparr>status := ''failed'', finished_at := Some (now e Commit_130)\<rparr>)
     \<and> filter is_finished (emitted (snd (run_build_thread e b cfg w))) =
         filter is_finished (emitted w) @ [E_build_finished b ''failed'' None]"
proof -
  from run_build_thread_fails_at[OF assms]
  obtain W where r: "run_build_thread e b cfg w = (None, W)"
    and ev: "emitted W = emitted w @ E_build_status_update b ''running'' #
          concat (map (\<lambda>j. step_events e b (length steps) j (step_cmd (steps ! j))) [0..<Suc k])
          @ [E_build_finished b ''failed'' None]"
    and lg: "build_logs W = build_logs w @
          concat (map (\<lambda>j. map (BuildLog b j) (step_lines e j (step_cmd (steps ! j)))) [0..<Suc k])"
    and bs: "builds W = (builds w)(b \<mapsto> b0\<lparr>status := ''failed'',
                                         finished_at := Some (now e Commit_130)\<rparr>)"
    by blast
  have starts: "filter is_step_start (emitted W) = filter is_step_start (emitted w) @
         map (\<lambda>j. E_build_step_start b j (step_cmd (steps ! j))) [0..<Suc k]"
    unfolding ev by (simp add: filter_concat_step_events del: upt_Suc)
  have fin: "filter is_finished (emitted W) =
         filter is_finished (emitted w) @ [E_build_finished b ''failed'' None]"
    unfolding ev by (simp add: filter_concat_step_events del: upt_Suc)
  have rows: "\<forall>r\<in>set (drop (length (build_logs w)) (build_logs W)).
           log_build_id r = b \<and> log_step_index r \<le> k"
    unfolding lg by (auto simp: BuildLog_def)
  show ?thesis using r starts fin rows bs by simp
qed

theorem fail_fast_witness:
  "fst (run_build_thread (example_env scenario_loads) 1 None example_world) = None
   \<and> filter is_step_start
        (emitted (snd (run_build_thread (example_env scenario_loads) 1 None example_world))) =
        [E_build_step_start 1 0 (JStr ''echo A''), E_build_step_start 1 1 (JStr ''false'')]
   \<and> builds (snd (run_build_thread (example_env scenario_loads) 1 None example_world)) 1 =
        Some (queued_build\<lparr>status := ''failed'', finished_at := Some 1000\<rparr>)
   \<and> filter is_finished
        (emitted (snd (run_build_thread (example_env scenario_loads) 1 None example_world))) =
        [E_build_finished 1 ''failed'' None]"
proof -
  let ?e = "example_env scenario_loads"
  have h1: "calm ?e" by (rule example_calm)
  have h2: "builds example_world 1 = Some queued_build" by (simp add: example_world_def)
  have h3: "json_loads ?e (config_text None) = Inr (JObj [(''steps'', JArr scenario_steps)])"
    by (simp add: example_env_simps scenario_loads_def)
  have h4: "dict_get (JObj [(''steps'', JArr scenario_steps)]) ''steps'' (JArr [])
              = Inr (JArr scenario_steps)"
    by (simp add: dict_get_def)
  have h5: "\<forall>s\<in>set scenario_steps. is_dict s" by (simp add: scenario_steps_def)
  have h6: "1 < length scenario_steps" by (simp add: scenario_steps_def)
  have h7: "\<forall>j<1. exit_code ?e j (step_cmd (scenario_steps ! j)) = 0"
    by (simp add: scenario_steps_def example_steps_simps)
  have h8: "exit_code ?e 1 (step_cmd (scenario_steps ! 1)) \<noteq> 0"
    by (simp add: scenario_steps_def example_steps_simps)
  from fail_fast[OF h1 h2 h3 h4 h5 h6 h7 h8]
  show ?thesis
    by (simp add: example_world_def example_env_simps scenario_steps_def example_steps_simps
          upt_rec)
qed

text \<open>
  C7 (all-success path). The build's row exists, the store is calm, the configuration
  parses to a list of \<open>N \<ge> 1\<close> dict steps and every step has exit code 0. Then the
  function returns, the row ends with status \<^verbatim>\<open>success\<close> and \<^verbatim>\<open>finished_at\<close> set, the
  \<^verbatim>\<open>build_step_start\<close> events published are those of the steps \<open>0\<close> to \<open>N - 1\<close> in this
  order, and the last \<^verbatim>\<open>build_progress\<close> event carries the value 100.
\<close>

theorem all_success:
  assumes "calm e" and "builds w b = Some b0"
    and "json_loads e (config_text cfg) = Inr config"
    and "dict_get config ''steps'' (JArr []) = Inr (JArr steps)"
    and "\<forall>s\<in>set steps. is_dict s"
    and "steps \<noteq> []"
    and "\<forall>j<length steps. exit_code e j (step_cmd (steps ! j)) = 0"
  shows "fst (run_build_thread e b cfg w) = None
     \<and> builds (snd (run_build_thread e b cfg w)) b =
         Some (b0\<lparr>status := ''success'', finished_at := Some (now e Commit_143)\<rparr>)
     \<and> filter is_step_start (emitted (snd (run_build_thread e b cfg w))) =
         filter is_step_start (emitted w) @
         map (\<lambda>j. E_build_step_start b j (step_cmd (steps ! j))) [0..<length steps]
     \<and> last (filter is_progress (emitted (snd (run_build_thread e b cfg w)))) =
         E_build_progress b 100"
proof -
  let ?n = "length steps"
  have n: "(if ?n = 0 then 1 else ?n) = ?n" "0 < ?n" using assms(6) by simp_all
  from run_build_thread_all_pass[OF assms(1-5,7)]
  obtain W where r: "run_build_thread e b cfg w = (None, W)"
    and ev: "emitted W = emitted w @ E_build_status_update b ''running'' #
          concat (map (\<lambda>j. step_events e b ?n j (step_cmd (steps ! j))) [0..<?n])
          @ [E_build_finished b ''success'' None]"
    and bs: "builds W = (builds w)(b \<mapsto> b0\<lparr>status := ''success'',
                                         finished_at := Some (now e Commit_143)\<rparr>)"
    unfolding n by blast
  have starts: "filter is_step_start (emitted W) = filter is_step_start (emitted w) @
         map (\<lambda>j. E_build_step_start b j (step_cmd (steps ! j))) [0..<?n]"
    unfolding ev by (simp add: filter_concat_step_events)
  have prog: "filter is_progress (emitted W) = filter is_progress (emitted w) @
         map (\<lambda>j. E_build_progress b (progress_pct j ?n)) [0..<?n]"
    unfolding ev by (simp add: filter_concat_step_events)
  have up: "[0..<?n] = [0..<?n - 1] @ [?n - 1]"
    using n(2) by (metis Suc_diff_1 upt_Suc_append zero_le)
  have "last (filter is_progress (emitted W)) = E_build_progress b (progress_pct (?n - 1) ?n)"
    unfolding prog by (subst up) simp
  then have lastp: "last (filter is_progress (emitted W)) = E_build_progress b 100"
    using progress_pct_last[OF n(2)] by simp
  show ?thesis using r starts lastp bs by simp
qed

theorem all_success_witness:
  "fst (run_build_thread (example_env passing_loads) 1 None example_world) = None
   \<and> builds (snd (run_build_thread (example_env passing_loads) 1 None example_world)) 1 =
        Some (queued_build\<lparr>status := ''success'', finished_at := Some 1000\<rparr>)
   \<and> filter is_step_start
        (emitted (snd (run_build_thread (example_env passing_loads) 1 None example_world))) =
        [E_build_step_start 1 0 (JStr ''echo A''), E_build_step_start 1 1 (JStr ''seq 37''),
         E_build_step_start 1 2 (JStr ''echo C'')]
   \<and> last (filter is_progress
        (emitted (snd (run_build_thread (example_env passing_loads) 1 None example_world)))) =
        E_build_progress 1 100"
proof -
  let ?e = "example_env passing_loads"
  have h1: "calm ?e" by (rule example_calm)
  have h2: "builds example_world 1 = Some queued_build" by (simp add: example_world_def)
  have h3: "json_loads ?e (config_text None) = Inr (JObj [(''steps'', JArr passing_steps)])"
    by (simp add: example_env_simps passing_loads_def)
  have h4: "dict_get (JObj [(''steps'', JArr passing_steps)]) ''steps'' (JArr [])
              = Inr (JArr passing_steps)"
    by (simp add: dict_get_def)
  have h5: "\<forall>s\<in>set passing_steps. is_dict s" by (simp add: passing_steps_def)
  have h6: "passing_steps \<noteq> []" by (simp add: passing_steps_def)
  have h7: "\<forall>j<length passing_steps. exit_code ?e j (step_cmd (passing_steps ! j)) = 0"
    by (simp add: passing_steps_def example_steps_simps less_Suc_eq)
  from all_success[OF h1 h2 h3 h4 h5 h6 h7]
  show ?thesis
    by (simp add: example_world_def example_env_simps passing_steps_def example_steps_simps
          upt_rec)
qed

lemma progress_values_3:
  "progress_pct 0 3 = 33" "progress_pct 1 3 = 66" "progress_pct 2 3 = 100"
  "spec_progress 1 3 = 33" "spec_progress 2 3 = 67" "spec_progress 3 3 = 100"
  by code_simp+

lemma progress_values_3_Suc:
  "progress_pct (Suc 0) 3 = 66" "progress_pct (Suc (Suc 0)) 3 = 100"
  "spec_progress (Suc 0) 3 = 33"
  using progress_values_3(2,3,4) by (simp_all add: numeral_2_eq_2)

text \<open>
  C4 (progress value), as the code has it. With a calm store and a pipeline whose
  first \<open>m\<close> steps pass, the run publishes one \<^verbatim>\<open>build_progress\<close> event for each step
  that was run, in the order of the steps: all \<open>m\<close> when the pipeline is over, one more
  when step \<open>m\<close> fails. The value for the step of index \<open>index\<close> is
  \<open>progress_pct index total_steps\<close> with \<open>total_steps = max 1 (len steps)\<close>, that is
  \<^verbatim>\<open>int(((index + 1) / total_steps) * 100)\<close>: the percentage computed in binary64 and
  truncated, not rounded.
\<close>

theorem build_progress_values:
  assumes "calm e" and "builds w b = Some b0"
    and "json_loads e (config_text cfg) = Inr config"
    and "dict_get config ''steps'' (JArr []) = Inr (JArr steps)"
    and "\<forall>s\<in>set steps. is_dict s"
    and "m \<le> length steps"
    and "\<forall>j<m. exit_code e j (step_cmd (steps ! j)) = 0"
    and "m = length steps \<or> exit_code e m (step_cmd (steps ! m)) \<noteq> 0"
  shows "filter is_progress (emitted (snd (run_build_thread e b cfg w))) =
         filter is_progress (emitted w) @
         map (\<lambda>index. E_build_progress b (progress_pct index (max 1 (length steps))))
             [0..<(if m = length steps then m else Suc m)]"
proof (cases "m = length steps")
  case True
  have p: "\<forall>j<length steps. exit_code e j (step_cmd (steps ! j)) = 0"
    using assms(7) True by simp
  have n: "(if length steps = 0 then 1 else length steps) = max 1 (length steps)"
    by (cases steps) (simp_all add: max_def)
  from run_build_thread_all_pass[OF assms(1-5) p]
  obtain W where r: "run_build_thread e b cfg w = (None, W)"
    and ev: "emitted W = emitted w @ E_build_status_update b ''running'' #
          concat (map (\<lambda>j. step_events e b (max 1 (length steps)) j (step_cmd (steps ! j)))
                   [0..<length steps])
          @ [E_build_finished b ''success'' None]"
    unfolding n by blast
  show ?thesis using True unfolding r
    by (simp add: ev filter_concat_step_events)
next
  case False
  then have k: "m < length steps" and f: "exit_code e m (step_cmd (steps ! m)) \<noteq> 0"
    using assms(6,8) by simp_all
  have n: "length steps = max 1 (length steps)" using k by simp
  from run_build_thread_fails_at[OF assms(1-5) k assms(7) f]
  obtain W where r: "run_build_thread e b cfg w = (None, W)"
    and ev: "emitted W = emitted w @ E_build_status_update b ''running'' #
          concat (map (\<lambda>j. step_events e b (length steps) j (step_cmd (steps ! j))) [0..<Suc m])
          @ [E_build_finished b ''failed'' None]"
    by blast
  have "filter is_progress (emitted W) = filter is_progress (emitted w) @
         map (\<lambda>j. E_build_progress b (progress_pct j (length steps))) [0..<Suc m]"
    unfolding ev by (simp add: filter_concat_step_events del: upt_Suc)
  then show ?thesis using False unfolding r
    by (subst n[symmetric]) (simp del: upt_Suc)
qed

theorem build_progress_values_witness:
  "filter is_progress
     (emitted (snd (run_build_thread (example_env scenario_loads) 1 None example_world))) =
     [E_build_progress 1 33, E_build_progress 1 66]"
proof -
  let ?e = "example_env scenario_loads"
  have h1: "calm ?e" by (rule example_calm)
  have h2: "builds example_world 1 = Some queued_build" by (simp add: example_world_def)
  have h3: "json_loads ?e (config_text None) = Inr (JObj [(''steps'', JArr scenario_steps)])"
    by (simp add: example_env_simps scenario_loads_def)
  have h4: "dict_get (JObj [(''steps'', JArr scenario_steps)]) ''steps'' (JArr [])
              = Inr (JArr scenario_steps)"
    by (simp add: dict_get_def)
  have h5: "\<forall>s\<in>set scenario_steps. is_dict s" by (simp add: scenario_steps_def)
  have h6: "1 \<le> length scenario_steps" by (simp add: scenario_steps_def)
  have h7: "\<forall>j<1. exit_code ?e j (step_cmd (scenario_steps ! j)) = 0"
    by (simp add: scenario_steps_def example_steps_simps)
  have h8: "1 = length scenario_steps \<or> exit_code ?e 1 (step_cmd (scenario_steps ! 1)) \<noteq> 0"
    by (simp add: scenario_steps_def example_steps_simps)
  have l: "length scenario_steps = 3" by (simp add: scenario_steps_def)
  from build_progress_values[OF h1 h2 h3 h4 h5 h6 h7 h8]
  show ?thesis
    by (simp add: l example_world_def progress_values_3 progress_values_3_Suc upt_rec)
qed

text \<open>
  The property as the specification words it fails on the pipeline of three passing
  steps: the code publishes 33, 66 and 100, where rounding gives 33, 67 and 100.
\<close>

theorem progress_rounding_counterexample:
  "filter is_progress
     (emitted (snd (run_build_thread (example_env passing_loads) 1 None example_world))) =
     [E_build_progress 1 33, E_build_progress 1 66, E_build_progress 1 100]
   \<and> map (\<lambda>completed_steps. E_build_progress 1
              (spec_progress completed_steps (max 1 (length passing_steps)))) [1, 2, 3] =
     [E_build_progress 1 33, E_build_progress 1 67, E_build_progress 1 100]
   \<and> progress_pct 1 3 \<noteq> spec_progress 2 3"
proof -
  let ?e = "example_env passing_loads"
  have h2: "builds example_world 1 = Some queued_build" by (simp add: example_world_def)
  have h3: "json_loads ?e (config_text None) = Inr (JObj [(''steps'', JArr passing_steps)])"
    by (simp add: example_env_simps passing_loads_def)
  have h4: "dict_get (JObj [(''steps'', JArr passing_steps)]) ''steps'' (JArr [])
              = Inr (JArr passing_steps)"
    by (simp add: dict_get_def)
  have h5: "\<forall>s\<in>set passing_steps. is_dict s" by (simp add: passing_steps_def)
  have h7: "\<forall>j<length passing_steps. exit_code ?e j (step_cmd (passing_steps ! j)) = 0"
    by (simp add: passing_steps_def example_steps_simps less_Suc_eq)
  have l: "length passing_steps = 3" by (simp add: passing_steps_def)
  from run_build_thread_all_pass[OF example_calm h2 h3 h4 h5 h7]
  obtain W where r: "run_build_thread ?e 1 None example_world = (None, W)"
    and ev: "emitted W = emitted example_world @ E_build_status_update 1 ''running'' #
          concat (map (\<lambda>j. step_events ?e 1 (if length passing_steps = 0 then 1
                                                else length passing_steps) j
                               (step_cmd (passing_steps ! j))) [0..<length passing_steps])
          @ [E_build_finished 1 ''success'' None]"
    by blast
  have "filter is_progress (emitted W) =
     [E_build_progress 1 33, E_build_progress 1 66, E_build_progress 1 100]"
    unfolding ev
    by (simp add: filter_step_events l example_world_def progress_values_3
          progress_values_3_Suc upt_rec)
  then show ?thesis unfolding r by (simp add: l progress_values_3 progress_values_3_Suc)
qed

text \<open>
  C6 (no-op guard). When the lookup of line 84 finds no row for the build id, the
  function returns without raising; the only trace it leaves is the message printed:
  no row is written, no event is published.
\<close>

theorem missing_build_is_noop:
  assumes "builds w b = None" and "db_raises e Get_84 w = None"
  shows "run_build_thread e b cfg w = (None, print (NotFound b) w)
       \<and> builds (snd (run_build_thread e b cfg w)) = builds w
       \<and> emitted (snd (run_build_thread e b cfg w)) = emitted w
       \<and> build_logs (snd (run_build_thread e b cfg w)) = build_logs w
       \<and> console (snd (run_build_thread e b cfg w)) = console w @ [NotFound b]"
proof -
  have "w\<lparr>builds := (builds w)(b := None)\<rparr> = w"
    using assms(1) by (simp add: fun_upd_idem)
  then have "run_build_thread e b cfg w = (None, print (NotFound b) w)"
    using assms by (simp add: run_build_thread_def db_session_get_def)
  then show ?thesis by (simp add: world_simps)
qed

theorem missing_build_is_noop_witness:
  "builds example_world 2 = None
   \<and> db_raises (example_env scenario_loads) Get_84 example_world = None
   \<and> run_build_thread (example_env scenario_loads) 2 None example_world =
       (None, print (NotFound 2) example_world)
   \<and> emitted (snd (run_build_thread (example_env scenario_loads) 2 None example_world)) = []"
proof -
  have h1: "builds example_world 2 = None" by (simp add: example_world_def)
  have h2: "db_raises (example_env scenario_loads) Get_84 example_world = None"
    by (simp add: example_env_simps)
  from missing_build_is_noop[OF h1 h2, of None]
  show ?thesis using h1 h2 by (simp add: world_simps example_world_def)
qed

section \<open>The invariant of the row\<close>

text \<open>Nothing in the streaming of a step touches the table of builds, whatever the store does.\<close>

lemma stream_lines_builds:
  "builds (snd (stream_lines e b i ls buffer cd w)) = builds w"
proof (induction ls arbitrary: buffer cd w)
  case Nil
  show ?case by simp
next
  case (Cons l ls)
  show ?case
    by (simp add: Let_def flush_def Cons.IH world_simps split: option.split)
qed

lemma run_command_and_stream_builds:
  "builds (snd (run_command_and_stream e b i cmd w)) = builds w"
proof -
  obtain res W1 where r: "stream_lines e b i (readlines (fst (projr (popen e i cmd)))) [] 0 w = (res, W1)"
    by (cases "stream_lines e b i (readlines (fst (projr (popen e i cmd)))) [] 0 w")
  have b1: "builds W1 = builds w"
    using stream_lines_builds[of e b i "readlines (fst (projr (popen e i cmd)))" "[]" 0 w] r
    by simp
  show ?thesis
    using r b1
    by (auto simp: run_command_and_stream_def flush_def world_simps
          split: sum.split option.split prod.split simp del: stream_lines.simps)
qed

lemma row_ok_cong: "builds w' = builds w \<Longrightarrow> row_ok b w' = row_ok b w"
  by (simp add: row_ok_def)

lemma finish_build_row_ok:
  assumes "row_ok b w" and "terminal st"
  shows "row_ok b (snd (finish_build e get commit b st w))"
  using assms
  by (auto simp: finish_build_def db_session_get_def db_commit_build_def row_ok_def
        consistent_def Let_def split: option.split)

lemma run_steps_row_ok:
  "row_ok b w \<Longrightarrow> row_ok b (snd (run_steps e b n i steps w))"
proof (induction steps arbitrary: i w)
  case Nil
  then show ?case by simp
next
  case (Cons step steps)
  show ?case
  proof (cases "dict_get step ''cmd'' JNull")
    case (Inl x)
    then show ?thesis using Cons.prems by simp
  next
    case (Inr cmd)
    let ?w1 = "emit (E_build_step_start b i cmd) w"
    obtain res W2 where r: "run_command_and_stream e b i cmd ?w1 = (res, W2)"
      by (cases "run_command_and_stream e b i cmd ?w1")
    have b2: "builds W2 = builds w"
      using run_command_and_stream_builds[of e b i cmd ?w1] r by (simp add: world_simps)
    let ?w3 = "emit (E_build_progress b (progress_pct i n)) W2"
    have ok3: "row_ok b ?w3" using Cons.prems b2 by (simp add: row_ok_def world_simps)
    have ok2: "row_ok b W2" using Cons.prems b2 by (simp add: row_ok_def)
    show ?thesis
    proof (cases res)
      case (Inl x)
      then show ?thesis using Inr r ok2 by simp
    next
      case rc: (Inr rc)
      show ?thesis
      proof (cases "rc = 0")
        case True
        then show ?thesis using Inr r rc Cons.IH[OF ok3] by simp
      next
        case False
        have t: "terminal ''failed''" by (simp add: terminal_def)
        obtain fr W4 where f: "finish_build e Get_127 Commit_130 b ''failed'' ?w3 = (fr, W4)"
          by (cases "finish_build e Get_127 Commit_130 b ''failed'' ?w3")
        have ok4: "row_ok b W4" using finish_build_row_ok[OF ok3 t, of e Get_127 Commit_130] f by simp
        then have "row_ok b (emit (E_build_finished b ''failed'' None) W4)"
          by (simp add: row_ok_def world_simps)
        then show ?thesis using Inr r rc False f ok4
          by (cases fr) simp_all
      qed
    qed
  qed
qed

lemma row_ok_emit: "row_ok b (emit ev w) = row_ok b w"
  by (simp add: row_ok_def world_simps)

lemma try_body_row_ok:
  assumes "row_ok b w"
  shows "row_ok b (snd (try_body e b cfg w))"
proof (cases "json_loads e (config_text cfg)")
  case (Inl x)
  then show ?thesis using assms by (simp add: try_body_def)
next
  case config: (Inr config)
  show ?thesis
  proof (cases "dict_get config ''steps'' (JArr [])")
    case (Inl x)
    then show ?thesis using assms config by (simp add: try_body_def)
  next
    case steps: (Inr steps)
    show ?thesis
    proof (cases "py_len steps")
      case (Inl x)
      then show ?thesis using assms config steps by (simp add: try_body_def)
    next
      case len: (Inr n)
      let ?n = "if n = 0 then 1 else n"
      obtain res W1 where r: "run_steps e b ?n 0 (py_iter steps) w = (res, W1)"
        by (cases "run_steps e b ?n 0 (py_iter steps) w")
      have ok1: "row_ok b W1"
        using run_steps_row_ok[OF assms, of e ?n 0 "py_iter steps"] r by simp
      obtain fr W2 where f: "finish_build e Get_140 Commit_143 b ''success'' W1 = (fr, W2)"
        by (cases "finish_build e Get_140 Commit_143 b ''success'' W1")
      have ok2: "row_ok b W2"
        using finish_build_row_ok[OF ok1, of "''success''" e Get_140 Commit_143] f
        by (simp add: terminal_def)
      show ?thesis
      proof (cases res)
        case (Inl x)
        then show ?thesis using config steps len r ok1 by (simp add: try_body_def)
      next
        case ex: (Inr ex)
        show ?thesis
        proof (cases ex)
          case Returned
          then show ?thesis using config steps len r ok1 ex by (simp add: try_body_def)
        next
          case Exhausted
          then show ?thesis using config steps len r ex f ok2
            by (cases fr) (simp_all add: try_body_def row_ok_emit)
        qed
      qed
    qed
  qed
qed

lemma handler_row_ok:
  assumes "row_ok b w"
  shows "row_ok b (snd (handler e b x w))"
  using assms
  by (auto simp: handler_def db_session_get_def db_commit_build_def row_ok_def row_ok_emit
        consistent_def terminal_def world_simps Let_def split: option.split)

lemma run_build_thread_row_ok:
  assumes "builds w b = Some b0" and "status b0 = ''queued''" and "finished_at b0 = None"
  shows "row_ok b (snd (run_build_thread e b cfg w))"
proof -
  have c0: "consistent b0" using assms(2,3) by (simp add: consistent_def terminal_def)
  have ok: "row_ok b w" using assms(1) c0 by (simp add: row_ok_def)
  obtain got w1 where g: "db_session_get e Get_84 b w = (got, w1)"
    by (cases "db_session_get e Get_84 b w")
  have ok1: "row_ok b w1" using ok g
    by (auto simp: db_session_get_def row_ok_def Let_def split: option.splits if_splits)
  have b1: "builds w1 b = None \<or> builds w1 b = Some b0" using assms(1) g
    by (auto simp: db_session_get_def Let_def split: option.splits if_splits)
  have fnd: "got = Inr found \<Longrightarrow> found = builds w1 b" for found
    using g by (auto simp: db_session_get_def Let_def split: option.splits if_splits)
  show ?thesis
  proof (cases got)
    case (Inl x)
    then show ?thesis using g ok1 by (simp add: run_build_thread_def)
  next
    case (Inr found)
    show ?thesis
    proof (cases found)
      case None
      then show ?thesis using g Inr ok1
        by (simp add: run_build_thread_def row_ok_def world_simps)
    next
      case (Some r)
      then have r: "r = b0" using fnd[OF Inr] b1 by simp
      show ?thesis
      proof (cases "db_commit_build e Commit_90 b (b0\<lparr>status := ''running''\<rparr>) w1")
        case cf: (Inl x)
        then show ?thesis using g Inr Some r ok1 by (simp add: run_build_thread_def)
      next
        case c: (Inr w2)
        then have w2: "w2 = w1\<lparr>builds := (builds w1)(b \<mapsto> b0\<lparr>status := ''running''\<rparr>)\<rparr>"
          by (simp add: db_commit_build_def split: option.splits)
        have ok2: "row_ok b w2"
          unfolding w2 using assms(3) by (simp add: row_ok_def consistent_def terminal_def)
        let ?w3 = "emit (E_build_status_update b ''running'') w2"
        have ok3: "row_ok b ?w3" using ok2 by (simp add: row_ok_emit)
        obtain tr w4 where t: "try_body e b cfg ?w3 = (tr, w4)"
          by (cases "try_body e b cfg ?w3")
        have ok4: "row_ok b w4" using try_body_row_ok[OF ok3, of e cfg] t by simp
        show ?thesis
        proof (cases tr)
          case (Inl x)
          then show ?thesis using g \<open>got = Inr found\<close> Some r c t handler_row_ok[OF ok4, of e x]
            by (simp add: run_build_thread_def)
        next
          case (Inr u)
          then show ?thesis using g \<open>got = Inr found\<close> Some r c t ok4
            by (simp add: run_build_thread_def)
        qed
      qed
    qed
  qed
qed

lemma scenario_row:
  "builds (snd (run_build_thread (example_env scenario_loads) 1 None example_world)) 1 =
     Some (queued_build\<lparr>status := ''failed'', finished_at := Some 1000\<rparr>)"
proof -
  let ?e = "example_env scenario_loads"
  have h2: "builds example_world 1 = Some queued_build" by (simp add: example_world_def)
  have h3: "json_loads ?e (config_text None) = Inr (JObj [(''steps'', JArr scenario_steps)])"
    by (simp add: example_env_simps scenario_loads_def)
  have h4: "dict_get (JObj [(''steps'', JArr scenario_steps)]) ''steps'' (JArr [])
              = Inr (JArr scenario_steps)"
    by (simp add: dict_get_def)
  have h5: "\<forall>s\<in>set scenario_steps. is_dict s" by (simp add: scenario_steps_def)
  have h6: "1 < length scenario_steps" by (simp add: scenario_steps_def)
  have h7: "\<forall>j<1. exit_code ?e j (step_cmd (scenario_steps ! j)) = 0"
    by (simp add: scenario_steps_def example_steps_simps)
  have h8: "exit_code ?e 1 (step_cmd (scenario_steps ! 1)) \<noteq> 0"
    by (simp add: scenario_steps_def example_steps_simps)
  from run_build_thread_fails_at[OF example_calm h2 h3 h4 h5 h6 h7 h8]
  show ?thesis by (auto simp: example_env_simps)
qed

text \<open>
  C9 (state invariant). The row of the build is as \<^verbatim>\<open>run_pipeline\<close> creates it: status
  \<^verbatim>\<open>queued\<close>, no \<^verbatim>\<open>finished_at\<close>. Whatever the environment does (any configuration, any
  exit codes, any storage call raising, the row deleted at any lookup), the row the
  function leaves behind, if there is one, has \<^verbatim>\<open>finished_at\<close> set exactly when its status is
  \<^verbatim>\<open>success\<close> or \<^verbatim>\<open>failed\<close>. Since every storage call may raise and end the run, this
  covers the row after each single write.
\<close>

theorem finished_at_iff_terminal:
  assumes "builds w b = Some b0" and "status b0 = ''queued''" and "finished_at b0 = None"
  shows "\<forall>r. builds (snd (run_build_thread e b cfg w)) b = Some r \<longrightarrow>
           ((finished_at r \<noteq> None) = (status r = ''success'' \<or> status r = ''failed''))"
  using run_build_thread_row_ok[OF assms, of e cfg]
  by (simp add: row_ok_def consistent_def terminal_def)

theorem finished_at_iff_terminal_witness:
  "builds example_world 1 = Some queued_build
   \<and> status queued_build = ''queued'' \<and> finished_at queued_build = None
   \<and> builds (snd (run_build_thread (example_env scenario_loads) 1 None example_world)) 1 =
        Some (queued_build\<lparr>status := ''failed'', finished_at := Some 1000\<rparr>)
   \<and> ((finished_at (queued_build\<lparr>status := ''failed'', finished_at := Some 1000\<rparr>) \<noteq> None) =
        (status (queued_build\<lparr>status := ''failed'', finished_at := Some 1000\<rparr>) = ''success''
         \<or> status (queued_build\<lparr>status := ''failed'', finished_at := Some 1000\<rparr>) = ''failed''))"
proof -
  have h1: "builds example_world 1 = Some queued_build" by (simp add: example_world_def)
  have h2: "status queued_build = ''queued''" by (simp add: queued_build_def)
  have h3: "finished_at queued_build = None" by (simp add: queued_build_def)
  from finished_at_iff_terminal[OF h1 h2 h3, of "example_env scenario_loads" None] scenario_row
  have "(finished_at (queued_build\<lparr>status := ''failed'', finished_at := Some 1000\<rparr>) \<noteq> None) =
        (status (queued_build\<lparr>status := ''failed'', finished_at := Some 1000\<rparr>) = ''success''
         \<or> status (queued_build\<lparr>status := ''failed'', finished_at := Some 1000\<rparr>) = ''failed'')"
    by blast
  then show ?thesis using h1 h2 h3 scenario_row by blast
qed

section \<open>The handler\<close>

lemma handler_no_fault:
  assumes "\<forall>w'. db_raises e Get_153 w' = None" and "\<forall>w'. db_raises e Commit_157 w' = None"
  shows "fst (handler e b x w) = None"
    and "emitted (snd (handler e b x w)) = emitted w @ [E_build_finished b ''failed'' (Some (str_of x))]"
    and "builds (snd (handler e b x w)) b =
           (if vanished e Get_153 w then None
            else map_option (\<lambda>r. r\<lparr>status := ''failed'', finished_at := Some (now e Commit_157)\<rparr>)
                   (builds w b))"
    and "build_logs (snd (handler e b x w)) = build_logs w"
  using assms
  by (auto simp: handler_def db_session_get_def db_commit_build_def world_simps Let_def
        split: option.split)

text \<open>
  C5 (safety net), as the code has it. The entry has found the row and marked it
  running, and the body of the \<^verbatim>\<open>try\<close> statement raises an exception \<open>x\<close>: from
  \<^verbatim>\<open>json.loads\<close>, from the inspection of the configuration, from a commit of log rows,
  from the final write of the status. If the two storage calls of the handler itself
  (lines 153 and 157) do not raise, the function returns without an exception, its last
  event is \<^verbatim>\<open>build_finished\<close> with status \<^verbatim>\<open>failed\<close> and the message of \<open>x\<close>, and the row,
  if it is still there, has status \<^verbatim>\<open>failed\<close> and \<^verbatim>\<open>finished_at\<close> set.
\<close>

theorem safety_net:
  assumes "builds w b = Some b0" and "db_raises e Get_84 w = None"
    and "\<not> vanished e Get_84 w" and "db_raises e Commit_90 w = None"
    and "try_body e b cfg (emit (E_build_status_update b ''running'')
              (w\<lparr>builds := (builds w)(b \<mapsto> b0\<lparr>status := ''running''\<rparr>)\<rparr>)) = (Inl x, w4)"
    and "\<forall>w'. db_raises e Get_153 w' = None"
    and "\<forall>w'. db_raises e Commit_157 w' = None"
  shows "fst (run_build_thread e b cfg w) = None
     \<and> emitted (snd (run_build_thread e b cfg w)) =
         emitted w4 @ [E_build_finished b ''failed'' (Some (str_of x))]
     \<and> builds (snd (run_build_thread e b cfg w)) b =
         (if vanished e Get_153 w4 then None
          else map_option (\<lambda>r. r\<lparr>status := ''failed'', finished_at := Some (now e Commit_157)\<rparr>)
                 (builds w4 b))"
proof -
  have "run_build_thread e b cfg w = handler e b x w4"
    unfolding entry_found[OF assms(2,3,4,1)] using assms(5) by simp
  then show ?thesis using handler_no_fault[OF assms(6,7), of b x w4] by simp
qed

theorem safety_net_witness:
  "fst (run_build_thread (example_env broken_loads) 1 None example_world) = None
   \<and> emitted (snd (run_build_thread (example_env broken_loads) 1 None example_world)) =
       [E_build_status_update 1 ''running'',
        E_build_finished 1 ''failed'' (Some ''Expecting value: line 1 column 1 (char 0)'')]
   \<and> builds (snd (run_build_thread (example_env broken_loads) 1 None example_world)) 1 =
       Some (queued_build\<lparr>status := ''failed'', finished_at := Some 1000\<rparr>)"
proof -
  let ?e = "example_env broken_loads"
  let ?w3 = "emit (E_build_status_update 1 ''running'')
              (example_world\<lparr>builds := (builds example_world)(1 \<mapsto> queued_build\<lparr>status := ''running''\<rparr>)\<rparr>)"
  have h1: "builds example_world 1 = Some queued_build" by (simp add: example_world_def)
  have h2: "db_raises ?e Get_84 example_world = None" by (simp add: example_env_simps)
  have h3: "\<not> vanished ?e Get_84 example_world" by (simp add: example_env_simps)
  have h4: "db_raises ?e Commit_90 example_world = None" by (simp add: example_env_simps)
  have h5: "try_body ?e 1 None ?w3 =
              (Inl (Exn ''JSONDecodeError'' ''Expecting value: line 1 column 1 (char 0)''), ?w3)"
    by (simp add: try_body_def example_env_simps broken_loads_def)
  have h6: "\<forall>w'. db_raises ?e Get_153 w' = None" by (simp add: example_env_simps)
  have h7: "\<forall>w'. db_raises ?e Commit_157 w' = None" by (simp add: example_env_simps)
  from safety_net[OF h1 h2 h3 h4 h5 h6 h7]
  show ?thesis
    by (simp add: example_env_simps world_simps example_world_def)
qed

text \<open>
  Without the proviso the property fails. The database is locked once the build is
  running: the commit of the log row of the only step raises (line 71), the handler
  finds the row, and its own commit raises too (line 157). The exception leaves the
  function, no \<^verbatim>\<open>build_finished\<close> event is published and the row stays \<^verbatim>\<open>running\<close>.
\<close>

lemma locked_env_simps:
  "json_loads locked_env = one_step_loads"
  "popen locked_env = example_popen"
  "db_raises locked_env call w =
     (if call = Commit_71 \<or> call = Commit_157 then Some locked else None)"
  "vanished locked_env call w = False"
  "now locked_env call = 1000"
  by (simp_all add: locked_env_def example_env_def)

theorem safety_net_counterexample:
  "fst (run_build_thread locked_env 1 None example_world) = Some locked
   \<and> emitted (snd (run_build_thread locked_env 1 None example_world)) =
       [E_build_status_update 1 ''running'', E_build_step_start 1 0 (JStr ''echo A'')]
   \<and> builds (snd (run_build_thread locked_env 1 None example_world)) 1 =
       Some (queued_build\<lparr>status := ''running''\<rparr>)"
  by (simp add: run_build_thread_def try_body_def handler_def db_session_get_def
        db_commit_build_def finish_build_def run_command_and_stream_def flush_def
        locked_env_simps one_step_loads_def example_popen_def example_world_def
        config_text_def dict_get_def py_len_def py_iter_def readlines_def rstrip_nl_def
        emit_def print_def Let_def)

text \<open>
  C10 (handler without a row). The entry has found the row, the body of the \<^verbatim>\<open>try\<close>
  statement raises \<open>x\<close>, and the lookup of line 153 finds no row any more. Then the
  handler writes nothing to the table of builds, and publishes \<^verbatim>\<open>build_finished\<close> with
  status \<^verbatim>\<open>failed\<close> and the message of \<open>x\<close> all the same: the event names a build id that
  the store does not hold, where the guard of the entry publishes nothing.
\<close>

theorem handler_publishes_for_absent_build:
  assumes "builds w b = Some b0" and "db_raises e Get_84 w = None"
    and "\<not> vanished e Get_84 w" and "db_raises e Commit_90 w = None"
    and "try_body e b cfg (emit (E_build_status_update b ''running'')
              (w\<lparr>builds := (builds w)(b \<mapsto> b0\<lparr>status := ''running''\<rparr>)\<rparr>)) = (Inl x, w4)"
    and "db_session_get e Get_153 b w4 = (Inr None, w5)"
  shows "run_build_thread e b cfg w =
           (None, emit (E_build_finished b ''failed'' (Some (str_of x))) w5)
     \<and> builds (snd (run_build_thread e b cfg w)) b = None
     \<and> builds (snd (run_build_thread e b cfg w)) = builds w5
     \<and> emitted (snd (run_build_thread e b cfg w)) =
         emitted w4 @ [E_build_finished b ''failed'' (Some (str_of x))]"
proof -
  have r: "run_build_thread e b cfg w =
           (None, emit (E_build_finished b ''failed'' (Some (str_of x))) w5)"
    unfolding entry_found[OF assms(2,3,4,1)] using assms(5,6) by (simp add: handler_def)
  have n: "builds w5 b = None" and m: "emitted w5 = emitted w4"
    using assms(6) by (auto simp: db_session_get_def Let_def split: option.splits if_splits)
  show ?thesis using r n m by (simp add: world_simps)
qed

lemma deleting_env_simps:
  "json_loads deleting_env = failing_loads"
  "popen deleting_env = example_popen"
  "db_raises deleting_env call w = None"
  "vanished deleting_env call w = (call = Get_127)"
  "now deleting_env call = 1000"
  by (simp_all add: deleting_env_def example_env_def)

lemma progress_pct_0_1: "progress_pct 0 (Suc 0) = 100"
  using progress_pct_last[of "Suc 0"] by simp

lemma deleting_try_body:
  "fst (try_body deleting_env 1 None
          (emit (E_build_status_update 1 ''running'')
             (example_world\<lparr>builds := (builds example_world)(1 \<mapsto> queued_build\<lparr>status := ''running''\<rparr>)\<rparr>)))
     = Inl (no_attribute ''NoneType'' ''status'')"
  "builds (snd (try_body deleting_env 1 None
          (emit (E_build_status_update 1 ''running'')
             (example_world\<lparr>builds := (builds example_world)(1 \<mapsto> queued_build\<lparr>status := ''running''\<rparr>)\<rparr>)))) 1
     = None"
  "emitted (snd (try_body deleting_env 1 None
          (emit (E_build_status_update 1 ''running'')
             (example_world\<lparr>builds := (builds example_world)(1 \<mapsto> queued_build\<lparr>status := ''running''\<rparr>)\<rparr>))))
     = [E_build_status_update 1 ''running'', E_build_step_start 1 0 (JStr ''false''),
        E_build_progress 1 100]"
  by (simp_all add: try_body_def db_session_get_def
        db_commit_build_def finish_build_def run_command_and_stream_def flush_def
        deleting_env_simps failing_loads_def example_popen_def example_world_def
        config_text_def dict_get_def py_len_def py_iter_def readlines_def rstrip_nl_def
        emit_def print_def Let_def progress_pct_0_1)

theorem handler_publishes_for_absent_build_witness:
  "fst (run_build_thread deleting_env 1 None example_world) = None
   \<and> builds (snd (run_build_thread deleting_env 1 None example_world)) 1 = None
   \<and> emitted (snd (run_build_thread deleting_env 1 None example_world)) =
       [E_build_status_update 1 ''running'', E_build_step_start 1 0 (JStr ''false''),
        E_build_progress 1 100,
        E_build_finished 1 ''failed'' (Some (str_of (no_attribute ''NoneType'' ''status'')))]"
proof -
  let ?w3 = "emit (E_build_status_update 1 ''running'')
             (example_world\<lparr>builds := (builds example_world)(1 \<mapsto> queued_build\<lparr>status := ''running''\<rparr>)\<rparr>)"
  let ?w4 = "snd (try_body deleting_env 1 None ?w3)"
  have h1: "builds example_world 1 = Some queued_build" by (simp add: example_world_def)
  have h2: "db_raises deleting_env Get_84 example_world = None" by (simp add: deleting_env_simps)
  have h3: "\<not> vanished deleting_env Get_84 example_world" by (simp add: deleting_env_simps)
  have h4: "db_raises deleting_env Commit_90 example_world = None" by (simp add: deleting_env_simps)
  have h5: "try_body deleting_env 1 None ?w3 = (Inl (no_attribute ''NoneType'' ''status''), ?w4)"
    using deleting_try_body(1) by (metis prod.collapse)
  have h6: "db_session_get deleting_env Get_153 1 ?w4 = (Inr None, ?w4)"
    using deleting_try_body(2) by (simp add: db_session_get_def deleting_env_simps Let_def)
  from handler_publishes_for_absent_build[OF h1 h2 h3 h4 h5 h6] deleting_try_body(2,3)
  show ?thesis by (simp add: world_simps)
qed

end
